theory Spec2Isabelle
  imports Complex_Main "HOL-Library.Log_Nat"
begin

section \<open>The platform: JavaScript strings and numbers\<close>

text \<open>
  The program (\<^verbatim>\<open>index.mjs\<close>) is a thin orchestration layer over the JavaScript
  standard library, Node's \<^verbatim>\<open>path\<close> and \<^verbatim>\<open>fs\<close> modules and the image codec
  \<^verbatim>\<open>sharp\<close>. The standard library and \<^verbatim>\<open>path\<close> are modelled below from their
  documented behaviour (ECMAScript, Node's POSIX \<^verbatim>\<open>path\<close>); the codec and the
  file system are parameters and explicit state.

  A JavaScript string is a sequence of UTF-16 code units. A \<^typ>\<open>string\<close> here is a
  sequence of code units in the range U+0000 .. U+00FF: every \<^typ>\<open>char\<close> stands for the
  code unit with its number. Strings with code units above U+00FF are outside the model.
\<close>

subsection \<open>String.prototype: trim, toLowerCase, split, startsWith\<close>

text \<open>The ECMAScript white space and line terminator code units below U+0100:
  TAB, LF, VT, FF, CR, SP and NBSP.\<close>

definition isWhiteSpace :: "char \<Rightarrow> bool" where
  "isWhiteSpace c =
     (c = CHR 0x09 \<or> c = CHR 0x0A \<or> c = CHR 0x0B \<or> c = CHR 0x0C \<or> c = CHR 0x0D
      \<or> c = CHR 0x20 \<or> c = CHR 0xA0)"

definition trim :: "string \<Rightarrow> string" where
  "trim s = rev (dropWhile isWhiteSpace (rev (dropWhile isWhiteSpace s)))"

text \<open>Unicode lower-casing on U+0000 .. U+00FF: A-Z and the Latin-1 capitals
  U+00C0 .. U+00DE (without the multiplication sign U+00D7) move up by 32.\<close>

definition isUpper :: "char \<Rightarrow> bool" where
  "isUpper c = (let n = (of_char c :: nat) in
     (65 \<le> n \<and> n \<le> 90) \<or> (192 \<le> n \<and> n \<le> 222 \<and> n \<noteq> 215))"

definition lower_char :: "char \<Rightarrow> char" where
  "lower_char c = (if isUpper c then char_of ((of_char c :: nat) + 32) else c)"

definition toLowerCase :: "string \<Rightarrow> string" where
  "toLowerCase s = map lower_char s"

text \<open>\<^verbatim>\<open>s.split(c)\<close> for a separator of one code unit: the pieces between the
  separators; the empty string gives one empty piece.\<close>

fun split :: "char \<Rightarrow> string \<Rightarrow> string list" where
  "split c [] = [ [] ]"
| "split c (x # xs) =
     (if x = c then [] # split c xs
      else (case split c xs of [] \<Rightarrow> [ [x] ] | p # ps \<Rightarrow> (x # p) # ps))"

text \<open>\<^verbatim>\<open>xs[i]\<close>: \<^verbatim>\<open>undefined\<close> (here \<open>None\<close>) past the end.\<close>

definition at_index :: "'a list \<Rightarrow> nat \<Rightarrow> 'a option" where
  "at_index xs i = (if i < length xs then Some (xs ! i) else None)"

definition startsWith :: "string \<Rightarrow> string \<Rightarrow> bool" where
  "startsWith s p = (take (length p) s = p)"

subsection \<open>Numbers and the conversion \<^verbatim>\<open>Number(string)\<close>\<close>

text \<open>
  A JavaScript number is NaN, an infinity or a finite IEEE double, here the rational it
  denotes. The two zeros are one value: the program only tests a zero for falsiness.
\<close>

datatype jsnum = NaN | PosInf | NegInf | Fin rat

text \<open>\<^verbatim>\<open>ToBoolean\<close> on a number: NaN and zero are falsy.\<close>

fun truthy :: "jsnum \<Rightarrow> bool" where
  "truthy NaN = False"
| "truthy (Fin q) = (q \<noteq> 0)"
| "truthy _ = True"

text \<open>\<^verbatim>\<open>a || b\<close> on numbers.\<close>

definition js_or :: "jsnum \<Rightarrow> jsnum \<Rightarrow> jsnum" where
  "js_or a b = (if truthy a then a else b)"

text \<open>\<^verbatim>\<open>a > b\<close> on numbers: false when either side is NaN.\<close>

fun js_gt :: "jsnum \<Rightarrow> jsnum \<Rightarrow> bool" where
  "js_gt NaN _ = False"
| "js_gt _ NaN = False"
| "js_gt PosInf b = (b \<noteq> PosInf)"
| "js_gt NegInf _ = False"
| "js_gt (Fin _) PosInf = False"
| "js_gt (Fin _) NegInf = True"
| "js_gt (Fin a) (Fin b) = (b < a)"

definition pow :: "int \<Rightarrow> int \<Rightarrow> rat" where
  "pow b e = (if 0 \<le> e then of_int (b ^ nat e) else 1 / of_int (b ^ nat (- e)))"

text \<open>\<open>\<lfloor>log\<^sub>2 x\<rfloor>\<close> for a positive rational.\<close>

definition floor_log2 :: "rat \<Rightarrow> int" where
  "floor_log2 x = (case quotient_of x of (p, q) \<Rightarrow>
     (let k = bitlen p - bitlen q in if pow 2 k \<le> x then k else k - 1))"

definition round_half_even :: "rat \<Rightarrow> int" where
  "round_half_even x = (let f = \<lfloor>x\<rfloor>; d = x - of_int f in
     if d < 1 / 2 then f else if 1 / 2 < d then f + 1 else if even f then f else f + 1)"

text \<open>Rounding a mathematical value to the nearest double (ties to even): 53 bits of
  precision, least exponent \<open>-1074\<close>, overflow to infinity from \<open>2^1024\<close>.\<close>

definition round_double :: "rat \<Rightarrow> jsnum" where
  "round_double x =
     (if x = 0 then Fin 0
      else let a = \<bar>x\<bar>;
               q = max (floor_log2 a - 52) (- 1074);
               r = of_int (round_half_even (a / pow 2 q)) * pow 2 q
           in if 2 ^ 1024 \<le> \<lfloor>r\<rfloor> then (if x < 0 then NegInf else PosInf)
              else Fin (if x < 0 then - r else r))"

fun digit_val :: "char \<Rightarrow> int option" where
  "digit_val c = (let n = (of_char c :: int) in
     if 48 \<le> n \<and> n \<le> 57 then Some (n - 48)
     else if 97 \<le> n \<and> n \<le> 102 then Some (n - 87)
     else if 65 \<le> n \<and> n \<le> 70 then Some (n - 55)
     else None)"

definition isDigit :: "char \<Rightarrow> bool" where
  "isDigit c = (case digit_val c of None \<Rightarrow> False | Some d \<Rightarrow> d < 10)"

text \<open>The value of a digit string in a base; \<open>None\<close> at a character that is no digit
  of the base.\<close>

fun digits_num :: "int \<Rightarrow> string \<Rightarrow> int \<Rightarrow> int option" where
  "digits_num b [] acc = Some acc"
| "digits_num b (c # cs) acc =
     (case digit_val c of
        None \<Rightarrow> None
      | Some d \<Rightarrow> if d < b then digits_num b cs (acc * b + d) else None)"

definition signed_digits :: "int \<Rightarrow> string \<Rightarrow> int option" where
  "signed_digits sg ds =
     (if ds = [] then None else map_option (\<lambda>n. sg * n) (digits_num 10 ds 0))"

text \<open>An optional \<^verbatim>\<open>ExponentPart\<close> that must reach the end of the literal.\<close>

definition parse_exponent :: "string \<Rightarrow> int option" where
  "parse_exponent s =
     (case s of
        [] \<Rightarrow> Some 0
      | c # r \<Rightarrow>
          if c = CHR ''e'' \<or> c = CHR ''E'' then
            (case r of
               [] \<Rightarrow> None
             | d # r' \<Rightarrow>
                 if d = CHR ''+'' then signed_digits 1 r'
                 else if d = CHR ''-'' then signed_digits (- 1) r'
                 else signed_digits 1 r)
          else None)"

text \<open>\<^verbatim>\<open>StrUnsignedDecimalLiteral\<close>: \<^verbatim>\<open>Infinity\<close>, or digits with an optional
  fraction and exponent, at least one digit before the exponent.\<close>

definition unsigned_decimal :: "string \<Rightarrow> jsnum" where
  "unsigned_decimal u =
     (if u = ''Infinity'' then PosInf
      else let ip = takeWhile isDigit u; r1 = dropWhile isDigit u;
               fp = (case r1 of [] \<Rightarrow> [] | c # r \<Rightarrow> if c = CHR ''.'' then takeWhile isDigit r else []);
               r2 = (case r1 of [] \<Rightarrow> [] | c # r \<Rightarrow> if c = CHR ''.'' then dropWhile isDigit r else r1)
           in if ip = [] \<and> fp = [] then NaN
              else (case digits_num 10 (ip @ fp) 0 of
                      None \<Rightarrow> NaN
                    | Some m \<Rightarrow>
                        (case parse_exponent r2 of
                           None \<Rightarrow> NaN
                         | Some e \<Rightarrow> round_double (of_int m * pow 10 (e - int (length fp))))))"

fun negate :: "jsnum \<Rightarrow> jsnum" where
  "negate NaN = NaN"
| "negate PosInf = NegInf"
| "negate NegInf = PosInf"
| "negate (Fin q) = Fin (- q)"

text \<open>\<^verbatim>\<open>0x\<close>, \<^verbatim>\<open>0o\<close> and \<^verbatim>\<open>0b\<close> literals: unsigned, at least one digit.\<close>

definition radix_literal :: "int \<Rightarrow> string \<Rightarrow> jsnum" where
  "radix_literal b ds =
     (if ds = [] then NaN
      else (case digits_num b ds 0 of None \<Rightarrow> NaN | Some m \<Rightarrow> round_double (of_int m)))"

text \<open>\<^verbatim>\<open>StringToNumber\<close>: white space is trimmed, the empty string is 0, anything that
  is not a \<^verbatim>\<open>StrNumericLiteral\<close> is NaN.\<close>

definition StringToNumber :: "string \<Rightarrow> jsnum" where
  "StringToNumber s =
     (let t = trim s in
      if t = [] then Fin 0
      else if startsWith t ''0x'' \<or> startsWith t ''0X'' then radix_literal 16 (drop 2 t)
      else if startsWith t ''0o'' \<or> startsWith t ''0O'' then radix_literal 8 (drop 2 t)
      else if startsWith t ''0b'' \<or> startsWith t ''0B'' then radix_literal 2 (drop 2 t)
      else if startsWith t ''+'' then unsigned_decimal (drop 1 t)
      else if startsWith t ''-'' then negate (unsigned_decimal (drop 1 t))
      else unsigned_decimal t)"

text \<open>\<^verbatim>\<open>Number(v)\<close> for a string or \<^verbatim>\<open>undefined\<close>.\<close>

fun Number :: "string option \<Rightarrow> jsnum" where
  "Number None = NaN"
| "Number (Some s) = StringToNumber s"

section \<open>The Option Resolver: \<^verbatim>\<open>parseArgs\<close>\<close>

record opts =
  maxWidth :: jsnum
  quality :: jsnum
  formats :: "string list"
  dryRun :: bool
  overwrite :: bool

definition default_opts :: opts where
  "default_opts =
     \<lparr>maxWidth = Fin 1600, quality = Fin 80, formats = [''webp'', ''jpeg''],
      dryRun = False, overwrite = False\<rparr>"

text \<open>\<^verbatim>\<open>v.split(",").map((s) => s.trim().toLowerCase()).filter(Boolean)\<close>\<close>

definition format_tokens :: "string \<Rightarrow> string list" where
  "format_tokens v = filter (\<lambda>s. s \<noteq> []) (map (\<lambda>s. toLowerCase (trim s)) (split CHR '','' v))"

text \<open>The body of the loop over \<^verbatim>\<open>argv.slice(2)\<close>.\<close>

definition parseArg :: "opts \<Rightarrow> string \<Rightarrow> opts" where
  "parseArg opts arg =
     (if arg = ''--dry-run'' then opts\<lparr>dryRun := True\<rparr>
      else if arg = ''--overwrite'' then opts\<lparr>overwrite := True\<rparr>
      else if startsWith arg ''--max-width='' then
        opts\<lparr>maxWidth := js_or (Number (at_index (split CHR ''='' arg) 1)) (maxWidth opts)\<rparr>
      else if startsWith arg ''--quality='' then
        opts\<lparr>quality := js_or (Number (at_index (split CHR ''='' arg) 1)) (quality opts)\<rparr>
      else if startsWith arg ''--formats='' then
        (case at_index (split CHR ''='' arg) 1 of
           None \<Rightarrow> opts
         | Some v \<Rightarrow> if v \<noteq> [] then opts\<lparr>formats := format_tokens v\<rparr> else opts)
      else opts)"

definition parseArgs :: "string list \<Rightarrow> opts" where
  "parseArgs argv = foldl parseArg default_opts (drop 2 argv)"

section \<open>Node's \<^verbatim>\<open>path\<close> module (POSIX)\<close>

text \<open>\<^verbatim>\<open>path.basename(p)\<close>: the last component, trailing separators ignored.\<close>

definition path_basename :: "string \<Rightarrow> string" where
  "path_basename p =
     rev (takeWhile (\<lambda>c. c \<noteq> CHR ''/'') (dropWhile (\<lambda>c. c = CHR ''/'') (rev p)))"

text \<open>\<^verbatim>\<open>path.extname(p)\<close>: from the last dot of the last component to its end; empty
  when there is no dot, when the last dot is the first character of the component, and
  for the component \<^verbatim>\<open>..\<close>.\<close>

definition path_extname :: "string \<Rightarrow> string" where
  "path_extname p =
     (let b = path_basename p;
          e = rev (takeWhile (\<lambda>c. c \<noteq> CHR ''.'') (rev b))
      in if CHR ''.'' \<notin> set b then []
         else if length e + 1 = length b then []
         else if b = ''..'' then []
         else CHR ''.'' # e)"

text \<open>\<^verbatim>\<open>path.basename(p, ext)\<close>: the last component without \<^verbatim>\<open>ext\<close> when it ends
  with it and is longer; empty when \<^verbatim>\<open>ext\<close> is the whole path.\<close>

definition path_basename_ext :: "string \<Rightarrow> string \<Rightarrow> string" where
  "path_basename_ext p ext =
     (if ext \<noteq> [] \<and> length ext \<le> length p then
        (if ext = p then []
         else let b = path_basename p in
              if length ext < length b \<and> drop (length b - length ext) b = ext
              then take (length b - length ext) b else b)
      else path_basename p)"

text \<open>\<^verbatim>\<open>path.join(a, b)\<close> and \<^verbatim>\<open>path.resolve(a, b)\<close> as the program calls them: \<open>a\<close> a
  normalized absolute directory, \<open>b\<close> one component that is neither \<^verbatim>\<open>.\<close> nor
  \<^verbatim>\<open>..\<close>. The result is already normalized.\<close>

definition path_join :: "string \<Rightarrow> string \<Rightarrow> string" where
  "path_join a b =
     (if a = [] then b else if last a = CHR ''/'' then a @ b else a @ ''/'' @ b)"

section \<open>Constants of the program\<close>

text \<open>\<open>dn\<close> is \<^verbatim>\<open>__dirname\<close>, the directory of the script.\<close>

definition IMAGES_DIR :: "string \<Rightarrow> string" where
  "IMAGES_DIR dn = path_join dn ''images''"

definition OUTPUT_SUBDIR :: string where
  "OUTPUT_SUBDIR = ''formatted''"

definition OUTPUT_DIR :: "string \<Rightarrow> string" where
  "OUTPUT_DIR dn = path_join (IMAGES_DIR dn) OUTPUT_SUBDIR"

definition SUPPORTED_EXTS :: "string set" where
  "SUPPORTED_EXTS = {''.jpg'', ''.jpeg'', ''.png'', ''.webp'', ''.tif'', ''.tiff'', ''.gif''}"

section \<open>File Discovery: \<^verbatim>\<open>isImageFile\<close>, \<^verbatim>\<open>listImageFiles\<close>\<close>

text \<open>A directory entry as \<^verbatim>\<open>fs.readdir(dir, {withFileTypes: true})\<close> gives it. An
  entry that is neither a regular file nor a directory (a symbolic link, a socket ...)
  is \<open>Other\<close>.\<close>

datatype entry_kind = File | Directory | Other

record dirent =
  name :: string
  kind :: entry_kind

definition isImageFile :: "string \<Rightarrow> bool" where
  "isImageFile nm = (toLowerCase (path_extname nm) \<in> SUPPORTED_EXTS)"

fun listImageFiles :: "string \<Rightarrow> dirent list \<Rightarrow> string list" where
  "listImageFiles dir [] = []"
| "listImageFiles dir (e # es) =
     (if kind e = Directory then
        (if name e = OUTPUT_SUBDIR then listImageFiles dir es else listImageFiles dir es)
      else if kind e = File \<and> isImageFile (name e) then
        path_join dir (name e) # listImageFiles dir es
      else listImageFiles dir es)"

section \<open>The codec, the file system and the log\<close>

datatype js_error = Error (message: string)

record meta =
  width :: "jsnum option"

record resize_options =
  rs_width :: jsnum
  rs_withoutEnlargement :: bool
  rs_fit :: string

text \<open>A \<^verbatim>\<open>sharp\<close> pipeline: the input it was opened on and the operations requested.\<close>

record pipeline =
  input :: string
  failOn :: string
  rotated :: bool
  resized :: "resize_options option"

text \<open>The three encoders the program configures: \<^verbatim>\<open>webp({quality, effort})\<close>,
  \<^verbatim>\<open>jpeg({quality, mozjpeg})\<close>, \<^verbatim>\<open>png({quality})\<close>.\<close>

datatype encoder = Webp jsnum nat | Jpeg jsnum bool | Png jsnum

text \<open>What \<^verbatim>\<open>toFile\<close> does: it writes data, or it fails and may leave data behind.\<close>

datatype 'c write_result = Wrote 'c | WriteFailed js_error "'c option"

text \<open>
  The codec is a parameter. Reading metadata opens and decodes the source (the pipeline
  is lazy until then) and depends on the source alone, which the program never writes;
  \<^verbatim>\<open>resize\<close> and the encoder setters can reject their options; \<^verbatim>\<open>toFile\<close> may depend
  on the files present and touches its target path only.
\<close>

record 'c codec =
  read_metadata :: "pipeline \<Rightarrow> js_error + meta"
  resize_error :: "pipeline \<Rightarrow> resize_options \<Rightarrow> js_error option"
  encode_error :: "pipeline \<Rightarrow> encoder \<Rightarrow> js_error option"
  toFile :: "(string \<rightharpoonup> 'c) \<Rightarrow> pipeline \<Rightarrow> encoder \<Rightarrow> string \<Rightarrow> 'c write_result"

text \<open>The codec calls a run makes, as the call log records them: the metadata read of a
  pipeline, a resize request, the clone of a pipeline for an OutputSpec, the setting of an
  encoder on the clone, and the write of the clone to a path.\<close>

datatype codec_call =
  Metadata pipeline | Resize resize_options | Clone pipeline | Encode encoder | ToFile string

datatype log_arg = Text string | Thrown js_error

text \<open>The state a run threads through: the files that \<^verbatim>\<open>fs.access\<close> finds, with their
  data; the codec calls made so far; the lines on stderr, each the arguments of one
  \<^verbatim>\<open>console.warn\<close> or \<^verbatim>\<open>console.error\<close>.\<close>

record 'c world =
  files :: "string \<rightharpoonup> 'c"
  calls :: "codec_call list"
  stderr :: "log_arg list list"

section \<open>The Per-Image Converter: \<^verbatim>\<open>processImage\<close>\<close>

record output_spec =
  fmt :: string
  outFile :: string
  fn :: encoder

datatype status = Written | SkippedExists | DryRun

text \<open>A result \<^verbatim>\<open>{src, out, fmt, status}\<close>; its \<^verbatim>\<open>fmt\<close> is \<open>res_fmt\<close> here.\<close>

record conversion_result =
  src :: string
  out :: string
  res_fmt :: string
  status :: status

definition shouldResize :: "meta \<Rightarrow> opts \<Rightarrow> bool" where
  "shouldResize m opts =
     (case width m of None \<Rightarrow> False | Some wd \<Rightarrow> js_gt wd (maxWidth opts))"

text \<open>\<^verbatim>\<open>let work = pipeline; if (shouldResize) work = work.resize({...})\<close>\<close>

definition resize_step ::
  "'c codec \<Rightarrow> meta \<Rightarrow> opts \<Rightarrow> pipeline \<Rightarrow> 'c world \<Rightarrow> (js_error + pipeline) \<times> 'c world" where
  "resize_step cd m opts pl w =
     (if shouldResize m opts then
        (let ro = \<lparr>rs_width = maxWidth opts, rs_withoutEnlargement = True, rs_fit = ''inside''\<rparr>;
             w' = w\<lparr>calls := calls w @ [Resize ro]\<rparr>
         in case resize_error cd pl ro of
              Some err \<Rightarrow> (Inl err, w')
            | None \<Rightarrow> (Inr (pl\<lparr>resized := Some ro\<rparr>), w'))
      else (Inr pl, w))"

text \<open>The loop over \<^verbatim>\<open>opts.formats\<close> that fills \<^verbatim>\<open>outputs\<close>.\<close>

fun build_outputs ::
  "string \<Rightarrow> string \<Rightarrow> opts \<Rightarrow> string list \<Rightarrow> output_spec list \<Rightarrow> 'c world
     \<Rightarrow> output_spec list \<times> 'c world" where
  "build_outputs dn nameNoExt opts [] outputs w = (outputs, w)"
| "build_outputs dn nameNoExt opts (f # fs) outputs w =
     (if f = ''webp'' then
        build_outputs dn nameNoExt opts fs
          (outputs @ [\<lparr>fmt = f, outFile = path_join (OUTPUT_DIR dn) (nameNoExt @ ''.webp''),
                       fn = Webp (quality opts) 4\<rparr>]) w
      else if f = ''jpeg'' \<or> f = ''jpg'' then
        build_outputs dn nameNoExt opts fs
          (outputs @ [\<lparr>fmt = ''jpeg'', outFile = path_join (OUTPUT_DIR dn) (nameNoExt @ ''.jpg''),
                       fn = Jpeg (quality opts) True\<rparr>]) w
      else if f = ''png'' then
        build_outputs dn nameNoExt opts fs
          (outputs @ [\<lparr>fmt = f, outFile = path_join (OUTPUT_DIR dn) (nameNoExt @ ''.png''),
                       fn = Png (quality opts)\<rparr>]) w
      else
        build_outputs dn nameNoExt opts fs outputs
          (w\<lparr>stderr := stderr w @ [ [Text (''Skipping unsupported output format: '' @ f)] ]\<rparr>))"

definition result_of :: "string \<Rightarrow> output_spec \<Rightarrow> status \<Rightarrow> conversion_result" where
  "result_of basename spec st =
     \<lparr>src = basename, out = path_basename (outFile spec), res_fmt = fmt spec, status = st\<rparr>"

text \<open>The body of the loop over \<^verbatim>\<open>outputs\<close>: one result, or the error that leaves
  \<^verbatim>\<open>processImage\<close>.\<close>

definition emit_one ::
  "'c codec \<Rightarrow> opts \<Rightarrow> string \<Rightarrow> pipeline \<Rightarrow> output_spec \<Rightarrow> 'c world
     \<Rightarrow> (js_error + conversion_result) \<times> 'c world" where
  "emit_one cd opts basename work spec w =
     (if \<not> overwrite opts \<and> files w (outFile spec) \<noteq> None then
        (Inr (result_of basename spec SkippedExists), w)
      else if dryRun opts then
        (Inr (result_of basename spec DryRun), w)
      else
        (let w1 = w\<lparr>calls := calls w @ [Clone work, Encode (fn spec)]\<rparr> in
         case encode_error cd work (fn spec) of
           Some err \<Rightarrow> (Inl err, w1)
         | None \<Rightarrow>
             (let w2 = w1\<lparr>calls := calls w1 @ [ToFile (outFile spec)]\<rparr> in
              case toFile cd (files w) work (fn spec) (outFile spec) of
                Wrote d \<Rightarrow>
                  (Inr (result_of basename spec Written),
                   w2\<lparr>files := (files w)(outFile spec \<mapsto> d)\<rparr>)
              | WriteFailed err None \<Rightarrow> (Inl err, w2)
              | WriteFailed err (Some d) \<Rightarrow>
                  (Inl err, w2\<lparr>files := (files w)(outFile spec \<mapsto> d)\<rparr>))))"

fun emit_results ::
  "'c codec \<Rightarrow> opts \<Rightarrow> string \<Rightarrow> pipeline \<Rightarrow> output_spec list \<Rightarrow> conversion_result list
     \<Rightarrow> 'c world \<Rightarrow> (js_error + conversion_result list) \<times> 'c world" where
  "emit_results cd opts basename work [] results w = (Inr results, w)"
| "emit_results cd opts basename work (spec # specs) results w =
     (case emit_one cd opts basename work spec w of
        (Inl err, w') \<Rightarrow> (Inl err, w')
      | (Inr r, w') \<Rightarrow> emit_results cd opts basename work specs (results @ [r]) w')"

definition sharp :: "string \<Rightarrow> pipeline" where
  "sharp srcPath = \<lparr>input = srcPath, failOn = ''none'', rotated = True, resized = None\<rparr>"

definition processImage ::
  "'c codec \<Rightarrow> string \<Rightarrow> string \<Rightarrow> opts \<Rightarrow> 'c world
     \<Rightarrow> (js_error + conversion_result list) \<times> 'c world" where
  "processImage cd dn srcPath opts w =
     (let basename = path_basename srcPath;
          nameNoExt = path_basename_ext srcPath (path_extname srcPath);
          pl = sharp srcPath;
          w1 = w\<lparr>calls := calls w @ [Metadata pl]\<rparr>
      in case read_metadata cd pl of
           Inl err \<Rightarrow> (Inl err, w1)
         | Inr m \<Rightarrow>
             (case resize_step cd m opts pl w1 of
                (Inl err, w2) \<Rightarrow> (Inl err, w2)
              | (Inr work, w2) \<Rightarrow>
                  (case build_outputs dn nameNoExt opts (formats opts) [] w2 of
                     (outputs, w3) \<Rightarrow> emit_results cd opts basename work outputs [] w3)))"

section \<open>The Run Orchestrator: \<^verbatim>\<open>main\<close>\<close>

text \<open>What the run finds outside the output files: the script's directory, whether
  \<^verbatim>\<open>fs.access(IMAGES_DIR)\<close> succeeds, what \<^verbatim>\<open>fs.mkdir\<close> and \<^verbatim>\<open>fs.readdir\<close> give.\<close>

record env =
  dirname :: string
  images_accessible :: bool
  mkdir_error :: "js_error option"
  readdir :: "js_error + dirent list"

text \<open>\<^verbatim>\<open>err?.message || err\<close>\<close>

definition message_or_error :: "js_error \<Rightarrow> log_arg" where
  "message_or_error err = (if message err \<noteq> [] then Text (message err) else Thrown err)"

definition error_line :: "string \<Rightarrow> js_error \<Rightarrow> log_arg list" where
  "error_line f err =
     [Text (''Error processing '' @ path_basename f @ '':''), message_or_error err]"

text \<open>The loop over the discovered files, with its \<^verbatim>\<open>try\<close>/\<^verbatim>\<open>catch\<close>.\<close>

fun main_loop ::
  "'c codec \<Rightarrow> string \<Rightarrow> opts \<Rightarrow> string list \<Rightarrow> conversion_result list \<Rightarrow> 'c world
     \<Rightarrow> conversion_result list \<times> 'c world" where
  "main_loop cd dn opts [] allResults w = (allResults, w)"
| "main_loop cd dn opts (f # fs) allResults w =
     (case processImage cd dn f opts w of
        (Inr res, w') \<Rightarrow> main_loop cd dn opts fs (allResults @ res) w'
      | (Inl err, w') \<Rightarrow>
          main_loop cd dn opts fs allResults (w'\<lparr>stderr := stderr w' @ [error_line f err]\<rparr>))"

text \<open>A finished run: the exit status of the process, the results it reported, the
  numbers of its summary line (written, skipped, dry) and the state it leaves.\<close>

record 'c run =
  exit_code :: nat
  allResults :: "conversion_result list"
  summary :: "nat \<times> nat \<times> nat"
  after :: "'c world"

definition count_status :: "status \<Rightarrow> conversion_result list \<Rightarrow> nat" where
  "count_status st rs = length (filter (\<lambda>r. status r = st) rs)"

definition main :: "'c codec \<Rightarrow> env \<Rightarrow> string list \<Rightarrow> 'c world \<Rightarrow> 'c run" where
  "main cd ev argv w =
     (let opts = parseArgs argv in
      if \<not> images_accessible ev then
        \<lparr>exit_code = 1, allResults = [], summary = (0, 0, 0),
         after = w\<lparr>stderr := stderr w @
                   [ [Text (''Missing images directory: '' @ IMAGES_DIR (dirname ev))] ]\<rparr>\<rparr>
      else
        (case mkdir_error ev of
           Some err \<Rightarrow>
             \<lparr>exit_code = 1, allResults = [], summary = (0, 0, 0),
              after = w\<lparr>stderr := stderr w @ [ [Thrown err] ]\<rparr>\<rparr>
         | None \<Rightarrow>
             (case readdir ev of
                Inl err \<Rightarrow>
                  \<lparr>exit_code = 1, allResults = [], summary = (0, 0, 0),
                   after = w\<lparr>stderr := stderr w @ [ [Thrown err] ]\<rparr>\<rparr>
              | Inr entries \<Rightarrow>
                  (let found = listImageFiles (IMAGES_DIR (dirname ev)) entries in
                   if found = [] then
                     \<lparr>exit_code = 0, allResults = [], summary = (0, 0, 0), after = w\<rparr>
                   else
                     (case main_loop cd (dirname ev) opts found [] w of
                        (rs, w') \<Rightarrow>
                          \<lparr>exit_code = 0, allResults = rs,
                           summary = (count_status Written rs, count_status SkippedExists rs,
                                      count_status DryRun rs),
                           after = w'\<rparr>)))))"

section \<open>Vocabulary of the specification\<close>

text \<open>The specification's words for what the code decides by its \<^verbatim>\<open>if\<close> chains:
  the valid format tokens, the normalized format and the output extension of a token,
  and the OutputSpec derived from a base name and a token. The lemmas below compare
  them with \<^const>\<open>build_outputs\<close>.\<close>

definition spec_valid_token :: "string \<Rightarrow> bool" where
  "spec_valid_token f = (f = ''webp'' \<or> f = ''jpeg'' \<or> f = ''jpg'' \<or> f = ''png'')"

definition spec_normalized :: "string \<Rightarrow> string" where
  "spec_normalized f = (if f = ''jpg'' then ''jpeg'' else f)"

definition spec_extension :: "string \<Rightarrow> string" where
  "spec_extension f = (if f = ''jpeg'' then ''jpg'' else f)"

definition spec_encoder :: "opts \<Rightarrow> string \<Rightarrow> encoder" where
  "spec_encoder opts f =
     (if f = ''webp'' then Webp (quality opts) 4
      else if f = ''png'' then Png (quality opts)
      else Jpeg (quality opts) True)"

definition spec_output :: "string \<Rightarrow> string \<Rightarrow> opts \<Rightarrow> string \<Rightarrow> output_spec" where
  "spec_output dn nameNoExt opts f =
     \<lparr>fmt = spec_normalized f,
      outFile = path_join (OUTPUT_DIR dn) (nameNoExt @ ''.'' @ spec_extension (spec_normalized f)),
      fn = spec_encoder opts f\<rparr>"

definition unsupported_warning :: "string \<Rightarrow> log_arg list" where
  "unsupported_warning f = [Text (''Skipping unsupported output format: '' @ f)]"

text \<open>The OutputSpecs of a source file, in request order.\<close>

definition outputs_of :: "string \<Rightarrow> string \<Rightarrow> opts \<Rightarrow> output_spec list" where
  "outputs_of dn srcPath opts =
     map (spec_output dn (path_basename_ext srcPath (path_extname srcPath)) opts)
       (filter spec_valid_token (formats opts))"

text \<open>A source file reaches format fan-out when its metadata can be read and the
  resize, if one is requested, is accepted.\<close>

definition reaches_fanout :: "'c codec \<Rightarrow> string \<Rightarrow> opts \<Rightarrow> bool" where
  "reaches_fanout cd srcPath opts =
     (case read_metadata cd (sharp srcPath) of
        Inl err \<Rightarrow> False
      | Inr m \<Rightarrow>
          (if shouldResize m opts then
             resize_error cd (sharp srcPath)
               \<lparr>rs_width = maxWidth opts, rs_withoutEnlargement = True, rs_fit = ''inside''\<rparr> = None
           else True))"

text \<open>The data-model constraints of a Configuration.\<close>

definition spec_positive_integer :: "jsnum \<Rightarrow> bool" where
  "spec_positive_integer n = (case n of Fin x \<Rightarrow> of_int \<lfloor>x\<rfloor> = x \<and> 0 < x | _ \<Rightarrow> False)"

definition spec_quality_range :: "jsnum \<Rightarrow> bool" where
  "spec_quality_range n =
     (case n of Fin x \<Rightarrow> of_int \<lfloor>x\<rfloor> = x \<and> 1 \<le> x \<and> x \<le> 100 | _ \<Rightarrow> False)"

text \<open>An argument that \<^const>\<open>parseArg\<close> recognizes.\<close>

definition recognized :: "string \<Rightarrow> bool" where
  "recognized arg =
     (arg = ''--dry-run'' \<or> arg = ''--overwrite'' \<or> startsWith arg ''--max-width=''
      \<or> startsWith arg ''--quality='' \<or> startsWith arg ''--formats='')"

text \<open>The resize requests among codec calls.\<close>

fun resize_requests :: "codec_call list \<Rightarrow> resize_options list" where
  "resize_requests [] = []"
| "resize_requests (Resize ro # cs) = ro # resize_requests cs"
| "resize_requests (c # cs) = resize_requests cs"

text \<open>The width of an image, when the codec knows it, is a positive number.\<close>

definition width_plausible :: "meta \<Rightarrow> bool" where
  "width_plausible m = (case width m of None \<Rightarrow> True | Some wd \<Rightarrow> js_gt wd (Fin 0))"

text \<open>
  The states a run with a codec and a Configuration can reach from a state: by processing
  an OutputSpec (the loop body \<^const>\<open>emit_one\<close>, for any source and OutputSpec) and by
  logging a codec call or a line on stderr. Everything \<^const>\<open>processImage\<close> and
  \<^const>\<open>main_loop\<close> do to the state is made of these steps.
\<close>

inductive later :: "'c codec \<Rightarrow> opts \<Rightarrow> 'c world \<Rightarrow> 'c world \<Rightarrow> bool"
  for cd :: "'c codec" and opts :: opts where
  later_refl: "later cd opts w w"
| later_emit: "later cd opts w w' \<Longrightarrow> later cd opts w (snd (emit_one cd opts b work spec w'))"
| later_log: "later cd opts w w' \<Longrightarrow> later cd opts w (w'\<lparr>calls := cs, stderr := es\<rparr>)"

text \<open>
  The status of an OutputSpec, given whether its output path is there when the loop
  reaches it: skipped-exists before dry-run before written.
\<close>

definition decided_status :: "opts \<Rightarrow> bool \<Rightarrow> status" where
  "decided_status opts there =
     (if \<not> overwrite opts \<and> there then SkippedExists
      else if dryRun opts then DryRun else Written)"

text \<open>
  Whether the output path of the \<open>i\<close>-th OutputSpec of a file is there when the loop
  reaches it, in terms of the files \<open>present\<close> when the file's processing began: the path
  was there then, or, outside a dry run, an earlier OutputSpec of the file has the same
  path. (The lemma \<open>emit_results_Inr_exact\<close> below relates this to the loop.)
\<close>

definition exists_before :: "opts \<Rightarrow> (string \<rightharpoonup> 'c) \<Rightarrow> output_spec list \<Rightarrow> nat \<Rightarrow> bool" where
  "exists_before opts present specs i =
     (present (outFile (specs ! i)) \<noteq> None
      \<or> (\<not> dryRun opts \<and> outFile (specs ! i) \<in> outFile ` set (take i specs)))"

text \<open>The pipeline that the output loop of a source file clones: \<^verbatim>\<open>work\<close>.\<close>

definition working_pipeline :: "'c codec \<Rightarrow> string \<Rightarrow> opts \<Rightarrow> pipeline" where
  "working_pipeline cd srcPath opts =
     (case read_metadata cd (sharp srcPath) of
        Inl err \<Rightarrow> sharp srcPath
      | Inr m \<Rightarrow>
          if shouldResize m opts then
            (sharp srcPath)\<lparr>resized :=
               Some \<lparr>rs_width = maxWidth opts, rs_withoutEnlargement = True, rs_fit = ''inside''\<rparr>\<rparr>
          else sharp srcPath)"

text \<open>The codec calls of an OutputSpec that is written.\<close>

definition write_calls :: "pipeline \<Rightarrow> output_spec \<Rightarrow> codec_call list" where
  "write_calls work spec = [Clone work, Encode (fn spec), ToFile (outFile spec)]"

text \<open>
  The state in which the output loop of a source file starts: the metadata call and the
  resize call, if there is one, are in the call log, and the warnings for the unsupported
  format tokens are on stderr.
\<close>

definition fanout_start :: "'c codec \<Rightarrow> string \<Rightarrow> opts \<Rightarrow> 'c world \<Rightarrow> 'c world" where
  "fanout_start cd srcPath opts w =
     w\<lparr>calls := calls w @ Metadata (sharp srcPath)
                  # (case resized (working_pipeline cd srcPath opts) of
                       None \<Rightarrow> [] | Some ro \<Rightarrow> [Resize ro]),
       stderr := stderr w @ map unsupported_warning
                   (filter (\<lambda>t. \<not> spec_valid_token t) (formats opts))\<rparr>"

section \<open>A sample codec and sample runs\<close>

text \<open>
  A codec for concrete runs. Like \<^verbatim>\<open>sharp\<close>, it rejects a source it cannot decode
  and an encoder quality that is not an integer from 1 to 100. File data is the pipeline
  and the encoder that produced it.
\<close>

definition encoder_quality :: "encoder \<Rightarrow> jsnum" where
  "encoder_quality enc = (case enc of Webp q e \<Rightarrow> q | Jpeg q m \<Rightarrow> q | Png q \<Rightarrow> q)"

definition sample_codec :: "(pipeline \<times> encoder) codec" where
  "sample_codec =
     \<lparr>read_metadata = (\<lambda>pl.
         if path_basename (input pl) = ''broken.png'' then
           Inl (Error ''Input file contains unsupported image format'')
         else if path_basename (input pl) = ''b.jpg'' then Inr \<lparr>width = Some (Fin 2000)\<rparr>
         else Inr \<lparr>width = Some (Fin 800)\<rparr>),
      resize_error = (\<lambda>pl ro. None),
      encode_error = (\<lambda>pl enc.
         if spec_quality_range (encoder_quality enc) then None
         else Some (Error ''Expected integer between 1 and 100 for quality'')),
      toFile = (\<lambda>present pl enc p. Wrote (pl, enc))\<rparr>"

definition empty_world :: "(pipeline \<times> encoder) world" where
  "empty_world = \<lparr>files = Map.empty, calls = [], stderr = []\<rparr>"

definition sample_env :: "dirent list \<Rightarrow> env" where
  "sample_env entries =
     \<lparr>dirname = ''/app'', images_accessible = True, mkdir_error = None,
      readdir = Inr entries\<rparr>"

definition file_entry :: "string \<Rightarrow> dirent" where
  "file_entry nm = \<lparr>name = nm, kind = File\<rparr>"

definition dir_entry :: "string \<Rightarrow> dirent" where
  "dir_entry nm = \<lparr>name = nm, kind = Directory\<rparr>"

definition sample_spec :: output_spec where
  "sample_spec = spec_output ''/app'' ''a'' default_opts ''webp''"

text \<open>A state in which the output \<^verbatim>\<open>a.webp\<close> is already there.\<close>

definition world_with_a_webp :: "(pipeline \<times> encoder) world" where
  "world_with_a_webp =
     empty_world\<lparr>files := [outFile sample_spec \<mapsto> (sharp ''/app/images/old.png'', Webp (Fin 80) 4)]\<rparr>"

section \<open>The platform model on examples\<close>

lemma StringToNumber_examples:
  "map StringToNumber
     [''1600'', '' 12 '', ''-5'', ''+7'', ''0.5'', ''.5'', ''5.'', ''1e3'', ''0x1F'', ''0b101'',
      ''010'', [], ''   '', ''abc'', ''12px'', ''1_000'', ''--5'', ''-0x10'', ''.'', ''1e'',
      ''Infinity'', ''-Infinity'', ''infinity'']
   = [Fin 1600, Fin 12, Fin (- 5), Fin 7, Fin (1 / 2), Fin (1 / 2), Fin 5, Fin 1000, Fin 31,
      Fin 5, Fin 10, Fin 0, Fin 0, NaN, NaN, NaN, NaN, NaN, NaN, NaN, PosInf, NegInf, NaN]"
  by code_simp

lemma path_examples:
  "map path_extname
     [''a.jpg'', ''/x/y/a.JPG'', ''a.tar.gz'', ''.jpg'', ''..jpg'', ''..'', ''a.'', ''a'', ''/x.d/a'']
   = [''.jpg'', ''.JPG'', ''.gz'', [], ''.jpg'', [], ''.'', [], []]
   \<and> map (\<lambda>p. path_basename_ext p (path_extname p))
       [''/i/a.jpg'', ''/i/a.tar.gz'', ''/i/.jpg'', ''/i/..jpg'', ''/i/a'']
     = [''a'', ''a.tar'', ''.jpg'', ''.'', ''a'']
   \<and> path_join ''/app/images'' ''a.png'' = ''/app/images/a.png''
   \<and> OUTPUT_DIR ''/app'' = ''/app/images/formatted''"
  by code_simp

section \<open>Lemmas on the loops\<close>

lemma build_outputs_eq:
  "build_outputs dn n opts fs outs w =
     (outs @ map (spec_output dn n opts) (filter spec_valid_token fs),
      w\<lparr>stderr := stderr w @ map unsupported_warning (filter (\<lambda>f. \<not> spec_valid_token f) fs)\<rparr>)"
proof (induction fs arbitrary: outs w)
  case Nil
  show ?case by simp
next
  case (Cons f fs)
  show ?case
    by (simp add: Cons.IH spec_valid_token_def spec_output_def spec_normalized_def
        spec_extension_def spec_encoder_def unsupported_warning_def)
qed

lemma emit_one_stderr: "stderr (snd (emit_one cd opts b work spec w)) = stderr w"
  by (simp add: emit_one_def Let_def split: option.splits write_result.splits)

lemma emit_one_files_mono:
  "files w p \<noteq> None \<Longrightarrow> files (snd (emit_one cd opts b work spec w)) p \<noteq> None"
  by (simp add: emit_one_def Let_def split: option.splits write_result.splits)

lemma emit_one_keeps:
  "\<not> overwrite opts \<Longrightarrow> files w p = Some c
     \<Longrightarrow> files (snd (emit_one cd opts b work spec w)) p = Some c"
  by (auto simp: emit_one_def Let_def split: option.splits write_result.splits)

lemma emit_one_skip:
  "\<not> overwrite opts \<Longrightarrow> files w (outFile spec) \<noteq> None
     \<Longrightarrow> emit_one cd opts b work spec w = (Inr (result_of b spec SkippedExists), w)"
  by (simp add: emit_one_def)

lemma emit_one_Inr:
  assumes "emit_one cd opts b work spec w = (Inr r, w')"
  shows "\<exists>st. r = result_of b spec st
           \<and> (st = Written \<longrightarrow> \<not> dryRun opts \<and> files w' (outFile spec) \<noteq> None)
           \<and> (st = SkippedExists \<longrightarrow> files w (outFile spec) \<noteq> None \<and> w' = w)
           \<and> (st = DryRun \<longrightarrow> dryRun opts \<and> w' = w)"
  using assms
  by (auto simp: emit_one_def Let_def split: if_splits option.splits write_result.splits)

lemma emit_results_stderr:
  "stderr (snd (emit_results cd opts b work specs acc w)) = stderr w"
proof (induction specs arbitrary: acc w)
  case Nil
  show ?case by simp
next
  case (Cons spec specs)
  obtain x w' where e: "emit_one cd opts b work spec w = (x, w')" by (cases "emit_one cd opts b work spec w")
  have s: "stderr w' = stderr w" using emit_one_stderr[of cd opts b work spec w] e by simp
  show ?case using e s Cons.IH by (cases x) simp_all
qed

lemma emit_results_files_mono:
  "files w p \<noteq> None \<Longrightarrow> files (snd (emit_results cd opts b work specs acc w)) p \<noteq> None"
proof (induction specs arbitrary: acc w)
  case Nil
  then show ?case by simp
next
  case (Cons spec specs)
  obtain x w' where e: "emit_one cd opts b work spec w = (x, w')" by (cases "emit_one cd opts b work spec w")
  have s: "files w' p \<noteq> None" using emit_one_files_mono[OF Cons.prems, of cd opts b work spec] e by simp
  show ?case using e s Cons.IH[OF s] by (cases x) simp_all
qed

lemma emit_results_keeps:
  "\<not> overwrite opts \<Longrightarrow> files w p = Some c
     \<Longrightarrow> files (snd (emit_results cd opts b work specs acc w)) p = Some c"
proof (induction specs arbitrary: acc w)
  case Nil
  then show ?case by simp
next
  case (Cons spec specs)
  obtain x w' where e: "emit_one cd opts b work spec w = (x, w')" by (cases "emit_one cd opts b work spec w")
  have s: "files w' p = Some c" using emit_one_keeps[OF Cons.prems, of cd b work spec] e by simp
  show ?case using e s Cons.IH[OF Cons.prems(1) s] by (cases x) simp_all
qed

lemma emit_results_all_exist:
  "\<not> overwrite opts \<Longrightarrow> \<forall>s\<in>set specs. files w (outFile s) \<noteq> None
     \<Longrightarrow> emit_results cd opts b work specs acc w
           = (Inr (acc @ map (\<lambda>s. result_of b s SkippedExists) specs), w)"
  by (induction specs arbitrary: acc) (simp_all add: emit_one_skip)

lemma emit_results_Inr:
  "emit_results cd opts b work specs acc w = (Inr rs, w')
     \<Longrightarrow> \<exists>sts. length sts = length specs \<and> rs = acc @ map2 (result_of b) specs sts
            \<and> (\<not> dryRun opts \<longrightarrow> (\<forall>s\<in>set specs. files w' (outFile s) \<noteq> None))
            \<and> (dryRun opts \<longrightarrow> Written \<notin> set sts)"
proof (induction specs arbitrary: acc w)
  case Nil
  then show ?case by simp
next
  case (Cons spec specs)
  obtain x w1 where e: "emit_one cd opts b work spec w = (x, w1)" by (cases "emit_one cd opts b work spec w")
  from Cons.prems e obtain r where x: "x = Inr r" by (cases x) simp_all
  from Cons.prems e x have rest: "emit_results cd opts b work specs (acc @ [r]) w1 = (Inr rs, w')" by simp
  from emit_one_Inr[OF e[unfolded x]] obtain st where st:
    "r = result_of b spec st"
    "st = Written \<longrightarrow> \<not> dryRun opts \<and> files w1 (outFile spec) \<noteq> None"
    "st = SkippedExists \<longrightarrow> files w (outFile spec) \<noteq> None \<and> w1 = w"
    "st = DryRun \<longrightarrow> dryRun opts \<and> w1 = w" by blast
  from Cons.IH[OF rest] obtain sts where sts:
    "length sts = length specs" "rs = (acc @ [r]) @ map2 (result_of b) specs sts"
    "\<not> dryRun opts \<longrightarrow> (\<forall>s\<in>set specs. files w' (outFile s) \<noteq> None)"
    "dryRun opts \<longrightarrow> Written \<notin> set sts" by blast
  have here: "\<not> dryRun opts \<longrightarrow> files w1 (outFile spec) \<noteq> None"
    using st by (cases st) auto
  have later: "\<not> dryRun opts \<longrightarrow> files w' (outFile spec) \<noteq> None"
    using here emit_results_files_mono[of w1 "outFile spec" cd opts b work specs "acc @ [r]"] rest by auto
  show ?case
    by (rule exI[of _ "st # sts"]) (use st sts later in auto)
qed

lemma resize_step_files: "files (snd (resize_step cd m opts pl w)) = files w"
  by (simp add: resize_step_def Let_def split: option.splits)

lemma resize_step_stderr: "stderr (snd (resize_step cd m opts pl w)) = stderr w"
  by (simp add: resize_step_def Let_def split: option.splits)

lemma processImage_fanout:
  assumes "reaches_fanout cd f opts"
  shows "\<exists>work w3. files w3 = files w
           \<and> stderr w3 = stderr w @ map unsupported_warning
                                      (filter (\<lambda>t. \<not> spec_valid_token t) (formats opts))
           \<and> processImage cd dn f opts w
               = emit_results cd opts (path_basename f) work (outputs_of dn f opts) [] w3"
proof -
  from assms obtain m where m: "read_metadata cd (sharp f) = Inr m"
    by (auto simp: reaches_fanout_def split: sum.splits)
  obtain x w2 where r: "resize_step cd m opts (sharp f) (w\<lparr>calls := calls w @ [Metadata (sharp f)]\<rparr>) = (x, w2)"
    by (cases "resize_step cd m opts (sharp f) (w\<lparr>calls := calls w @ [Metadata (sharp f)]\<rparr>)")
  from assms m r obtain work where x: "x = Inr work"
    by (auto simp: reaches_fanout_def resize_step_def Let_def split: if_splits)
  have f2: "files w2 = files w" and s2: "stderr w2 = stderr w"
    using resize_step_files[of cd m opts "sharp f" "w\<lparr>calls := calls w @ [Metadata (sharp f)]\<rparr>"]
      resize_step_stderr[of cd m opts "sharp f" "w\<lparr>calls := calls w @ [Metadata (sharp f)]\<rparr>"] r
    by simp_all
  let ?w3 = "w2\<lparr>stderr := stderr w2 @ map unsupported_warning
                (filter (\<lambda>t. \<not> spec_valid_token t) (formats opts))\<rparr>"
  have "processImage cd dn f opts w
          = emit_results cd opts (path_basename f) work (outputs_of dn f opts) [] ?w3"
    using m r x by (simp add: processImage_def Let_def build_outputs_eq outputs_of_def)
  moreover have "files ?w3 = files w" using f2 by simp
  moreover have "stderr ?w3 = stderr w @ map unsupported_warning
                   (filter (\<lambda>t. \<not> spec_valid_token t) (formats opts))" using s2 by simp
  ultimately show ?thesis by blast
qed

lemma processImage_no_fanout:
  assumes "\<not> reaches_fanout cd f opts"
  shows "\<exists>err w'. processImage cd dn f opts w = (Inl err, w')
           \<and> files w' = files w \<and> stderr w' = stderr w"
  using assms
  by (auto simp: reaches_fanout_def processImage_def resize_step_def Let_def
      split: sum.splits if_splits option.splits)

lemma processImage_files_mono:
  "files w p \<noteq> None \<Longrightarrow> files (snd (processImage cd dn f opts w)) p \<noteq> None"
proof (cases "reaches_fanout cd f opts")
  case True
  assume a: "files w p \<noteq> None"
  from processImage_fanout[OF True, of w dn] obtain work w3 where
    h: "files w3 = files w"
    "processImage cd dn f opts w = emit_results cd opts (path_basename f) work (outputs_of dn f opts) [] w3"
    by blast
  show ?thesis using a h emit_results_files_mono[of w3 p] by simp
next
  case False
  assume a: "files w p \<noteq> None"
  from processImage_no_fanout[OF False, of dn w] a show ?thesis by auto
qed

lemma processImage_keeps:
  assumes "\<not> overwrite opts" "files w p = Some c"
  shows "files (snd (processImage cd dn f opts w)) p = Some c"
proof (cases "reaches_fanout cd f opts")
  case True
  from processImage_fanout[OF True, of w dn] obtain work w3 where
    h: "files w3 = files w"
    "processImage cd dn f opts w = emit_results cd opts (path_basename f) work (outputs_of dn f opts) [] w3"
    by blast
  show ?thesis using assms h emit_results_keeps[of opts w3 p c] by simp
next
  case False
  from processImage_no_fanout[OF False, of dn w] assms show ?thesis by auto
qed

lemma main_loop_append:
  "main_loop cd dn opts (xs @ ys) acc w =
     (case main_loop cd dn opts xs acc w of (acc', w') \<Rightarrow> main_loop cd dn opts ys acc' w')"
  by (induction xs arbitrary: acc w) (auto split: prod.splits sum.splits)

lemma main_loop_acc:
  "main_loop cd dn opts fs acc w =
     (acc @ fst (main_loop cd dn opts fs [] w), snd (main_loop cd dn opts fs [] w))"
proof (induction fs arbitrary: acc w)
  case Nil
  show ?case by simp
next
  case (Cons f fs)
  obtain x w' where p: "processImage cd dn f opts w = (x, w')" by (cases "processImage cd dn f opts w")
  show ?case
  proof (cases x)
    case (Inl err)
    show ?thesis using p Inl Cons.IH[of acc] by simp
  next
    case (Inr res)
    show ?thesis using p Inr Cons.IH[of "acc @ res"] Cons.IH[of res] by simp
  qed
qed

lemma main_loop_files_mono:
  "files w p \<noteq> None \<Longrightarrow> files (snd (main_loop cd dn opts fs acc w)) p \<noteq> None"
proof (induction fs arbitrary: acc w)
  case Nil
  then show ?case by simp
next
  case (Cons f fs)
  obtain x w' where p: "processImage cd dn f opts w = (x, w')" by (cases "processImage cd dn f opts w")
  have s: "files w' p \<noteq> None" using processImage_files_mono[OF Cons.prems, of cd dn f opts] p by simp
  show ?case using p Cons.IH[of w'] Cons.IH[of "w'\<lparr>stderr := X\<rparr>" for X] s by (cases x) simp_all
qed

lemma main_loop_keeps:
  "\<not> overwrite opts \<Longrightarrow> files w p = Some c
     \<Longrightarrow> files (snd (main_loop cd dn opts fs acc w)) p = Some c"
proof (induction fs arbitrary: acc w)
  case Nil
  then show ?case by simp
next
  case (Cons f fs)
  obtain x w' where p: "processImage cd dn f opts w = (x, w')" by (cases "processImage cd dn f opts w")
  have s: "files w' p = Some c" using processImage_keeps[OF Cons.prems, of cd dn f] p by simp
  show ?case using p Cons.prems(1) Cons.IH[of w'] Cons.IH[of "w'\<lparr>stderr := X\<rparr>" for X] s by (cases x) simp_all
qed

section \<open>Lemmas on stderr and on start-up\<close>

lemma processImage_stderr:
  "\<exists>ws. stderr (snd (processImage cd dn f opts w)) = stderr w @ ws"
proof (cases "reaches_fanout cd f opts")
  case True
  from processImage_fanout[OF True, of w dn] obtain work w3 where
    h: "stderr w3 = stderr w @ map unsupported_warning
                                 (filter (\<lambda>t. \<not> spec_valid_token t) (formats opts))"
    "processImage cd dn f opts w = emit_results cd opts (path_basename f) work (outputs_of dn f opts) [] w3"
    by blast
  show ?thesis using h emit_results_stderr[of cd opts "path_basename f" work "outputs_of dn f opts" "[]" w3]
    by simp
next
  case False
  from processImage_no_fanout[OF False, of dn w] show ?thesis by auto
qed

lemma main_loop_stderr:
  "\<exists>ws. stderr (snd (main_loop cd dn opts fs acc w)) = stderr w @ ws"
proof (induction fs arbitrary: acc w)
  case Nil
  show ?case by simp
next
  case (Cons f fs)
  obtain x w' where p: "processImage cd dn f opts w = (x, w')"
    by (cases "processImage cd dn f opts w")
  from processImage_stderr[of cd dn f opts w] p obtain ws where ws: "stderr w' = stderr w @ ws"
    by auto
  show ?case
  proof (cases x)
    case (Inl err)
    from Cons.IH[of acc "w'\<lparr>stderr := stderr w' @ [error_line f err]\<rparr>"] obtain vs where
      "stderr (snd (main_loop cd dn opts fs acc (w'\<lparr>stderr := stderr w' @ [error_line f err]\<rparr>)))
         = stderr (w'\<lparr>stderr := stderr w' @ [error_line f err]\<rparr>) @ vs" by blast
    then show ?thesis using p Inl ws by simp
  next
    case (Inr res)
    from Cons.IH[of "acc @ res" w'] obtain vs where
      "stderr (snd (main_loop cd dn opts fs (acc @ res) w')) = stderr w' @ vs" by blast
    then show ?thesis using p Inr ws by simp
  qed
qed

lemma processImage_decode_error:
  "read_metadata cd (sharp f) = Inl err
     \<Longrightarrow> processImage cd dn f opts w = (Inl err, w\<lparr>calls := calls w @ [Metadata (sharp f)]\<rparr>)"
  by (simp add: processImage_def Let_def)

lemma main_startup:
  assumes "images_accessible ev" "mkdir_error ev = None" "readdir ev = Inr entries"
  shows "exit_code (main cd ev argv w) = 0"
    and "allResults (main cd ev argv w)
           = fst (main_loop cd (dirname ev) (parseArgs argv)
                    (listImageFiles (IMAGES_DIR (dirname ev)) entries) [] w)"
    and "after (main cd ev argv w)
           = snd (main_loop cd (dirname ev) (parseArgs argv)
                    (listImageFiles (IMAGES_DIR (dirname ev)) entries) [] w)"
  using assms by (simp_all add: main_def Let_def split: prod.splits)

section \<open>Decoding comes before the flags\<close>

text \<open>
  Claim C9. \<^verbatim>\<open>processImage\<close> opens the source and reads its metadata before it looks
  at \<^verbatim>\<open>dryRun\<close> or \<^verbatim>\<open>overwrite\<close>: when the metadata cannot be read, it raises that
  error whatever the Configuration is, \<^verbatim>\<open>dryRun = true\<close> included, having made the
  metadata call and nothing else; the run over that file gives no result, dry-run or
  other, and one line on stderr.
\<close>

theorem decode_error_before_flags:
  assumes "read_metadata cd (sharp f) = Inl err"
  shows "processImage cd dn f opts w
           = (Inl err, w\<lparr>calls := calls w @ [Metadata (sharp f)]\<rparr>)
       \<and> main_loop cd dn opts [f] [] w
           = ([], w\<lparr>calls := calls w @ [Metadata (sharp f)],
                    stderr := stderr w @ [error_line f err]\<rparr>)"
  using processImage_decode_error[OF assms, of dn opts w] by simp

theorem decode_error_before_flags_witness:
  "dryRun (parseArgs [''node'', ''index.mjs'', ''--dry-run''])
   \<and> main_loop sample_codec ''/app'' (parseArgs [''node'', ''index.mjs'', ''--dry-run''])
        [''/app/images/broken.png''] [] empty_world
     = ([], \<lparr>files = Map.empty,
             calls = [Metadata (sharp ''/app/images/broken.png'')],
             stderr = [ [Text ''Error processing broken.png:'',
                        Text ''Input file contains unsupported image format''] ]\<rparr>)"
proof -
  have m: "read_metadata sample_codec (sharp ''/app/images/broken.png'')
             = Inl (Error ''Input file contains unsupported image format'')"
    by (simp add: sample_codec_def sharp_def path_basename_def)
  have d: "dryRun (parseArgs [''node'', ''index.mjs'', ''--dry-run''])"
    by (simp add: parseArgs_def parseArg_def default_opts_def)
  have b: "path_basename ''/app/images/broken.png'' = ''broken.png''"
    by (simp add: path_basename_def)
  show ?thesis
    using decode_error_before_flags[OF m, of "''/app''"
        "parseArgs [''node'', ''index.mjs'', ''--dry-run'']" empty_world] d
    by (simp add: empty_world_def error_line_def message_or_error_def b)
qed

section \<open>Lemmas on output names\<close>

lemma path_basename_no_slash: "CHR ''/'' \<notin> set (path_basename p)"
proof -
  have "\<forall>c\<in>set (takeWhile (\<lambda>c. c \<noteq> CHR ''/'') xs). c \<noteq> CHR ''/''" for xs
    by (auto dest: set_takeWhileD)
  then show ?thesis by (auto simp: path_basename_def)
qed

lemma path_basename_ext_no_slash: "CHR ''/'' \<notin> set (path_basename_ext p e)"
  using path_basename_no_slash[of p]
  by (auto simp: path_basename_ext_def Let_def dest: in_set_takeD)

lemma path_basename_plain:
  assumes "CHR ''/'' \<notin> set x"
  shows "path_basename x = x"
proof -
  have d: "dropWhile (\<lambda>c. c = CHR ''/'') (rev x) = rev x"
    using assms by (cases "rev x") auto
  have t: "takeWhile (\<lambda>c. c \<noteq> CHR ''/'') (rev x) = rev x"
    using assms by (intro takeWhile_eq_all_conv[THEN iffD2]) auto
  show ?thesis by (simp add: path_basename_def d t)
qed

lemma path_basename_after_slash:
  assumes "CHR ''/'' \<notin> set x" and "x \<noteq> []"
  shows "path_basename (a @ CHR ''/'' # x) = x"
proof -
  have d: "dropWhile (\<lambda>c. c = CHR ''/'') (rev x @ CHR ''/'' # rev a) = rev x @ CHR ''/'' # rev a"
    using assms by (cases "rev x") auto
  have t: "takeWhile (\<lambda>c. c \<noteq> CHR ''/'') (rev x @ CHR ''/'' # rev a) = rev x"
    using assms by (auto simp: takeWhile_tail)
  show ?thesis by (simp add: path_basename_def d t)
qed

lemma path_basename_join:
  assumes "CHR ''/'' \<notin> set x" and "x \<noteq> []"
  shows "path_basename (path_join a x) = x"
proof (cases "a = []")
  case True
  then show ?thesis using assms by (simp add: path_join_def path_basename_plain)
next
  case False
  show ?thesis
  proof (cases "last a = CHR ''/''")
    case True
    with False have "a = butlast a @ [CHR ''/'']" by (metis append_butlast_last_id)
    then have "path_join a x = butlast a @ CHR ''/'' # x"
      using True False by (simp add: path_join_def)
    then show ?thesis using assms by (simp add: path_basename_after_slash)
  next
    case l: False
    then show ?thesis using False assms by (simp add: path_join_def path_basename_after_slash)
  qed
qed

lemma spec_output_out:
  assumes "spec_valid_token t"
  shows "path_basename (outFile (spec_output dn (path_basename_ext f e) opts t))
           = path_basename_ext f e @ ''.'' @ spec_extension (spec_normalized t)"
proof -
  have "CHR ''/'' \<notin> set (path_basename_ext f e @ ''.'' @ spec_extension (spec_normalized t))"
    using assms path_basename_ext_no_slash[of f e]
    by (auto simp: spec_valid_token_def spec_extension_def spec_normalized_def)
  then show ?thesis by (simp add: spec_output_def path_basename_join)
qed

lemma processImage_Inr_fanout:
  assumes "processImage cd dn f opts w = (Inr rs, w')"
  shows "reaches_fanout cd f opts"
proof (rule ccontr)
  assume "\<not> reaches_fanout cd f opts"
  from processImage_no_fanout[OF this, of dn w] assms show False by auto
qed

section \<open>File discovery\<close>

lemma path_join_inject: "path_join d a = path_join d b \<Longrightarrow> a = b"
  by (auto simp: path_join_def split: if_splits)

lemma listImageFiles_filter:
  "listImageFiles dir entries
     = map (\<lambda>e. path_join dir (name e))
         (filter (\<lambda>e. kind e = File \<and> isImageFile (name e)) entries)"
  by (induction entries) auto

lemma SUPPORTED_EXTS_dotted:
  "SUPPORTED_EXTS
     = (\<lambda>x. ''.'' @ x) ` {''jpg'', ''jpeg'', ''png'', ''webp'', ''tif'', ''tiff'', ''gif''}"
  by (simp add: SUPPORTED_EXTS_def)

text \<open>
  Claim C8. \<^verbatim>\<open>listImageFiles\<close> returns, in directory order, the paths of exactly the
  direct entries that are regular files whose extension, lower-cased, is one of jpg,
  jpeg, png, webp, tif, tiff, gif: an entry (entry names are distinct in a directory) is
  in the result if and only if it is such a file, so no directory is, the output
  subdirectory included; every path returned is the directory joined with the name of
  one of the entries, so nothing below a subdirectory is; and with no such file the
  result is the empty sequence.
\<close>

theorem discovery_exact:
  "listImageFiles dir entries
     = map (\<lambda>e. path_join dir (name e))
         (filter (\<lambda>e. kind e = File
                       \<and> toLowerCase (path_extname (name e))
                           \<in> (\<lambda>x. ''.'' @ x)
                               ` {''jpg'', ''jpeg'', ''png'', ''webp'', ''tif'', ''tiff'', ''gif''})
            entries)
   \<and> (distinct (map name entries) \<longrightarrow>
        (\<forall>e\<in>set entries.
           path_join dir (name e) \<in> set (listImageFiles dir entries)
             \<longleftrightarrow> kind e = File
                 \<and> toLowerCase (path_extname (name e))
                     \<in> (\<lambda>x. ''.'' @ x)
                         ` {''jpg'', ''jpeg'', ''png'', ''webp'', ''tif'', ''tiff'', ''gif''}))
   \<and> (distinct (map name entries) \<longrightarrow>
        (\<forall>e\<in>set entries. kind e = Directory \<longrightarrow>
           path_join dir (name e) \<notin> set (listImageFiles dir entries)))
   \<and> (\<forall>p\<in>set (listImageFiles dir entries). \<exists>e\<in>set entries. p = path_join dir (name e))
   \<and> ((\<forall>e\<in>set entries. \<not> (kind e = File \<and> isImageFile (name e)))
        \<longrightarrow> listImageFiles dir entries = [])"
proof -
  let ?S = "(\<lambda>x. ''.'' @ x) ` {''jpg'', ''jpeg'', ''png'', ''webp'', ''tif'', ''tiff'', ''gif''}"
  let ?ok = "\<lambda>e. kind e = File \<and> toLowerCase (path_extname (name e)) \<in> ?S"
  have ok: "\<And>e. (kind e = File \<and> isImageFile (name e)) = ?ok e"
    unfolding isImageFile_def SUPPORTED_EXTS_dotted by simp
  have eq: "listImageFiles dir entries = map (\<lambda>e. path_join dir (name e)) (filter ?ok entries)"
    unfolding listImageFiles_filter ok by simp
  have mem: "path_join dir (name e) \<in> set (listImageFiles dir entries) \<longleftrightarrow> ?ok e"
    if d: "distinct (map name entries)" and e: "e \<in> set entries" for e
  proof
    assume "path_join dir (name e) \<in> set (listImageFiles dir entries)"
    then obtain e' where e': "e' \<in> set entries" "?ok e'" "path_join dir (name e') = path_join dir (name e)"
      unfolding eq by auto
    then have "name e' = name e" by (auto dest: path_join_inject)
    with d e e' have "e' = e" by (auto simp: distinct_map dest: inj_onD)
    with e' show "?ok e" by simp
  next
    assume "?ok e"
    with e show "path_join dir (name e) \<in> set (listImageFiles dir entries)"
      unfolding eq by auto
  qed
  have dirs: "path_join dir (name e) \<notin> set (listImageFiles dir entries)"
    if "distinct (map name entries)" "e \<in> set entries" "kind e = Directory" for e
    using mem[OF that(1,2)] that(3) by simp
  have sub: "\<forall>p\<in>set (listImageFiles dir entries). \<exists>e\<in>set entries. p = path_join dir (name e)"
    unfolding eq by auto
  have none: "(\<forall>e\<in>set entries. \<not> (kind e = File \<and> isImageFile (name e)))
        \<longrightarrow> listImageFiles dir entries = []"
    unfolding listImageFiles_filter by (simp add: filter_empty_conv)
  show ?thesis
  proof (intro conjI impI ballI)
    show "listImageFiles dir entries = map (\<lambda>e. path_join dir (name e)) (filter ?ok entries)"
      by (rule eq)
  next
    fix e assume "distinct (map name entries)" "e \<in> set entries"
    then show "path_join dir (name e) \<in> set (listImageFiles dir entries) \<longleftrightarrow> ?ok e"
      by (rule mem)
  next
    fix e assume "distinct (map name entries)" "e \<in> set entries" "kind e = Directory"
    then show "path_join dir (name e) \<notin> set (listImageFiles dir entries)" by (rule dirs)
  next
    fix p assume "p \<in> set (listImageFiles dir entries)"
    with sub show "\<exists>e\<in>set entries. p = path_join dir (name e)" by (rule bspec)
  next
    assume "\<forall>e\<in>set entries. \<not> (kind e = File \<and> isImageFile (name e))"
    with none show "listImageFiles dir entries = []" by (rule mp)
  qed
qed

theorem discovery_exact_witness:
  "listImageFiles ''/app/images''
     [file_entry ''a.PNG'', dir_entry ''formatted'', dir_entry ''d.jpg'',
      \<lparr>name = ''l.jpg'', kind = Other\<rparr>, file_entry ''b.txt'', file_entry ''c.tiff'',
      file_entry ''.gif'']
     = [''/app/images/a.PNG'', ''/app/images/c.tiff'']
   \<and> ''/app/images/d.jpg''
       \<notin> set (listImageFiles ''/app/images''
                 [file_entry ''a.PNG'', dir_entry ''formatted'', dir_entry ''d.jpg'',
                  \<lparr>name = ''l.jpg'', kind = Other\<rparr>, file_entry ''b.txt'', file_entry ''c.tiff'',
                  file_entry ''.gif''])
   \<and> listImageFiles ''/app/images'' [dir_entry ''formatted'', file_entry ''notes.txt''] = []"
proof -
  let ?es = "[file_entry ''a.PNG'', dir_entry ''formatted'', dir_entry ''d.jpg'',
      \<lparr>name = ''l.jpg'', kind = Other\<rparr>, file_entry ''b.txt'', file_entry ''c.tiff'',
      file_entry ''.gif'']"
  let ?S = "(\<lambda>x. ''.'' @ x) ` {''jpg'', ''jpeg'', ''png'', ''webp'', ''tif'', ''tiff'', ''gif''}"
  note t = discovery_exact[of "''/app/images''" ?es]
  note t2 = discovery_exact[of "''/app/images''" "[dir_entry ''formatted'', file_entry ''notes.txt'']"]
  have f: "map (\<lambda>e. path_join ''/app/images'' (name e))
         (filter (\<lambda>e. kind e = File \<and> toLowerCase (path_extname (name e)) \<in> ?S) ?es)
       = [''/app/images/a.PNG'', ''/app/images/c.tiff'']" by code_simp
  have d: "distinct (map name ?es)" by code_simp
  have m1: "dir_entry ''d.jpg'' \<in> set ?es" by (simp add: dir_entry_def file_entry_def)
  have m2: "kind (dir_entry ''d.jpg'') = Directory" by (simp add: dir_entry_def)
  have m3: "path_join ''/app/images'' (name (dir_entry ''d.jpg'')) = ''/app/images/d.jpg''"
    by (simp add: dir_entry_def path_join_def)
  have n: "\<forall>e\<in>set [dir_entry ''formatted'', file_entry ''notes.txt''].
             \<not> (kind e = File \<and> isImageFile (name e))" by code_simp
  from t have t1: "listImageFiles ''/app/images'' ?es
      = map (\<lambda>e. path_join ''/app/images'' (name e))
         (filter (\<lambda>e. kind e = File \<and> toLowerCase (path_extname (name e)) \<in> ?S) ?es)"
    by (rule conjunct1)
  from t have t3: "distinct (map name ?es) \<longrightarrow>
        (\<forall>e\<in>set ?es. kind e = Directory \<longrightarrow>
           path_join ''/app/images'' (name e) \<notin> set (listImageFiles ''/app/images'' ?es))"
    by (elim conjE)
  from t2 have t5: "(\<forall>e\<in>set [dir_entry ''formatted'', file_entry ''notes.txt''].
                       \<not> (kind e = File \<and> isImageFile (name e)))
        \<longrightarrow> listImageFiles ''/app/images'' [dir_entry ''formatted'', file_entry ''notes.txt''] = []"
    by (elim conjE)
  have c1: "listImageFiles ''/app/images'' ?es = [''/app/images/a.PNG'', ''/app/images/c.tiff'']"
    by (rule trans[OF t1 f])
  have "\<forall>e\<in>set ?es. kind e = Directory \<longrightarrow>
           path_join ''/app/images'' (name e) \<notin> set (listImageFiles ''/app/images'' ?es)"
    by (rule mp[OF t3 d])
  from bspec[OF this m1] m2
  have "path_join ''/app/images'' (name (dir_entry ''d.jpg''))
          \<notin> set (listImageFiles ''/app/images'' ?es)" by (rule mp)
  then have c2: "''/app/images/d.jpg'' \<notin> set (listImageFiles ''/app/images'' ?es)"
    unfolding m3 .
  have c3: "listImageFiles ''/app/images'' [dir_entry ''formatted'', file_entry ''notes.txt''] = []"
    by (rule mp[OF t5 n])
  show ?thesis using c1 c2 c3 by (intro conjI)
qed

section \<open>Properties of the Option Resolver\<close>

lemma char_eq_nat: "(c = d) = ((of_char c :: nat) = of_char d)"
  by simp

lemma isWhiteSpace_nat:
  "isWhiteSpace c \<longleftrightarrow> (of_char c :: nat) \<in> {9, 10, 11, 12, 13, 32, 160}"
  unfolding isWhiteSpace_def char_eq_nat[of c] by (simp del: of_char_eq_iff)

lemma of_char_lower:
  "(of_char (lower_char c) :: nat) = (if isUpper c then of_char c + 32 else of_char c)"
  by (auto simp: lower_char_def isUpper_def Let_def)

lemma isWhiteSpace_lower [simp]: "isWhiteSpace (lower_char c) = isWhiteSpace c"
  unfolding isWhiteSpace_nat of_char_lower by (auto simp: isUpper_def Let_def)

lemma isUpper_lower [simp]: "\<not> isUpper (lower_char c)"
  by (auto simp: isUpper_def[of "lower_char c"] Let_def of_char_lower)
    (auto simp: isUpper_def Let_def)

lemma lower_char_idem [simp]: "lower_char (lower_char c) = lower_char c"
  by (simp add: lower_char_def[of "lower_char c"])

lemma toLowerCase_idem: "toLowerCase (toLowerCase s) = toLowerCase s"
  by (simp add: toLowerCase_def)

lemma toLowerCase_no_upper: "\<forall>c\<in>set (toLowerCase s). \<not> isUpper c"
  by (simp add: toLowerCase_def)


lemma lower_char_not_comma: "lower_char d = CHR '','' \<Longrightarrow> d = CHR '',''"
proof -
  assume a: "lower_char d = CHR '',''"
  have "(of_char (lower_char d) :: nat) = 44" unfolding a by simp
  then have "\<not> isUpper d" unfolding of_char_lower by (auto simp: isUpper_def Let_def split: if_splits)
  with a show ?thesis by (simp add: lower_char_def)
qed

lemma trim_subset: "set (trim s) \<subseteq> set s"
proof -
  have "set (dropWhile isWhiteSpace (rev (dropWhile isWhiteSpace s))) \<subseteq> set (rev (dropWhile isWhiteSpace s))"
    by (rule set_dropWhileD[THEN subsetI])
  also have "\<dots> \<subseteq> set s" by (auto dest: set_dropWhileD)
  finally show ?thesis by (simp add: trim_def)
qed

lemma last_dropWhile: "dropWhile P xs \<noteq> [] \<Longrightarrow> last (dropWhile P xs) = last xs"
  by (induction xs) auto

lemma trim_ends:
  "trim s = [] \<or> (\<not> isWhiteSpace (hd (trim s)) \<and> \<not> isWhiteSpace (last (trim s)))"
proof (cases "trim s = []")
  case True
  then show ?thesis by simp
next
  case False
  let ?u = "dropWhile isWhiteSpace s"
  let ?v = "dropWhile isWhiteSpace (rev ?u)"
  have t: "trim s = rev ?v" by (simp add: trim_def)
  from False t have v: "?v \<noteq> []" by simp
  have u: "?u \<noteq> []"
  proof
    assume "?u = []"
    then have "?v = []" by (simp only: rev.simps dropWhile.simps)
    with v show False by (rule notE)
  qed
  have hv: "\<not> isWhiteSpace (hd ?v)" using v by (rule hd_dropWhile)
  have hu: "\<not> isWhiteSpace (hd ?u)" using u by (rule hd_dropWhile)
  have "last ?v = last (rev ?u)" using v by (rule last_dropWhile)
  also have "\<dots> = hd ?u" using u by (simp add: last_rev)
  finally have lv: "last ?v = hd ?u" .
  have "hd (trim s) = last ?v" using v unfolding t by (simp add: hd_rev)
  moreover have "last (trim s) = hd ?v" using v unfolding t by (simp add: last_rev)
  ultimately show ?thesis using hv hu lv by simp
qed

lemma trim_fixed:
  assumes "t = [] \<or> (\<not> isWhiteSpace (hd t) \<and> \<not> isWhiteSpace (last t))"
  shows "trim t = t"
proof (cases "t = []")
  case True
  then show ?thesis by (simp add: trim_def)
next
  case False
  with assms have h: "\<not> isWhiteSpace (hd t)" and l: "\<not> isWhiteSpace (last t)" by auto
  have 1: "dropWhile isWhiteSpace t = t" using False h by (cases t) auto
  have "\<not> isWhiteSpace (hd (rev t))" using False l by (simp add: hd_rev)
  then have 2: "dropWhile isWhiteSpace (rev t) = rev t" using False by (cases "rev t") auto
  show ?thesis by (simp add: trim_def 1 2)
qed

lemma trim_toLowerCase_trim: "trim (toLowerCase (trim s)) = toLowerCase (trim s)"
proof (rule trim_fixed)
  show "toLowerCase (trim s) = []
          \<or> (\<not> isWhiteSpace (hd (toLowerCase (trim s)))
              \<and> \<not> isWhiteSpace (last (toLowerCase (trim s))))"
    using trim_ends[of s] by (auto simp: toLowerCase_def hd_map last_map)
qed

lemma split_no_sep: "\<forall>p\<in>set (split c s). c \<notin> set p"
  by (induction s) (auto split: list.splits)

lemma split_length: "c \<in> set s \<Longrightarrow> 2 \<le> length (split c s)"
proof (induction s)
  case Nil
  then show ?case by simp
next
  case (Cons x xs)
  have "split c xs \<noteq> []" by (cases xs) (auto split: list.splits)
  then show ?case using Cons by (auto split: list.splits)
qed

lemma startsWith_value:
  assumes "startsWith a p" and "CHR ''='' \<in> set p"
  shows "\<exists>v. at_index (split CHR ''='' a) 1 = Some v"
proof -
  from assms have "CHR ''='' \<in> set (take (length p) a)" by (simp add: startsWith_def)
  then have "CHR ''='' \<in> set a" by (rule in_set_takeD)
  from split_length[OF this] show ?thesis by (simp add: at_index_def)
qed

lemma format_tokens_props:
  "\<forall>t\<in>set (format_tokens v).
      t \<noteq> [] \<and> trim t = t \<and> toLowerCase t = t \<and> (\<forall>c\<in>set t. \<not> isUpper c)
      \<and> CHR '','' \<notin> set t \<and> (\<exists>s\<in>set (split CHR '','' v). t = toLowerCase (trim s))"
proof
  fix t assume "t \<in> set (format_tokens v)"
  then obtain s where s: "s \<in> set (split CHR '','' v)" "t = toLowerCase (trim s)" "t \<noteq> []"
    by (auto simp: format_tokens_def)
  have nc: "CHR '','' \<notin> set (trim s)" using s(1) split_no_sep[of "CHR '',''" v] trim_subset[of s] by auto
  have "CHR '','' \<notin> set t"
  proof
    assume "CHR '','' \<in> set t"
    then obtain d where d: "d \<in> set (trim s)" "lower_char d = CHR '',''"
      unfolding s(2) toLowerCase_def by auto
    from lower_char_not_comma[OF d(2)] d(1) nc show False by simp
  qed
  then show "t \<noteq> [] \<and> trim t = t \<and> toLowerCase t = t \<and> (\<forall>c\<in>set t. \<not> isUpper c)
      \<and> CHR '','' \<notin> set t \<and> (\<exists>s\<in>set (split CHR '','' v). t = toLowerCase (trim s))"
    using s by (auto simp: trim_toLowerCase_trim toLowerCase_idem toLowerCase_no_upper)
qed


lemma startsWith_both:
  assumes "startsWith a p" and "startsWith a q" and "length p \<le> length q"
  shows "take (length p) q = p"
proof -
  have "take (length p) q = take (length p) (take (length q) a)"
    using assms(2) by (simp add: startsWith_def)
  also have "\<dots> = take (length p) a" using assms(3) by (simp add: min_def)
  also have "\<dots> = p" using assms(1) by (simp add: startsWith_def)
  finally show ?thesis .
qed

lemma not_quality_if_max_width: "startsWith a ''--quality='' \<Longrightarrow> \<not> startsWith a ''--max-width=''"
  by (auto dest: startsWith_both[of a "''--quality=''" "''--max-width=''"])

lemma not_formats_if_max_width: "startsWith a ''--formats='' \<Longrightarrow> \<not> startsWith a ''--max-width=''"
  by (auto dest: startsWith_both[of a "''--formats=''" "''--max-width=''"])

lemma not_formats_if_quality: "startsWith a ''--formats='' \<Longrightarrow> \<not> startsWith a ''--quality=''"
  by (auto dest: startsWith_both[of a "''--formats=''" "''--quality=''"])

lemma not_flag_if_prefixed:
  "startsWith a ''--max-width='' \<or> startsWith a ''--quality='' \<or> startsWith a ''--formats=''
     \<Longrightarrow> a \<noteq> ''--dry-run'' \<and> a \<noteq> ''--overwrite''"
  by (auto simp: startsWith_def)

lemma parseArg_unrecognized: "\<not> recognized a \<Longrightarrow> parseArg opts a = opts"
  by (simp add: recognized_def parseArg_def)

lemma parseArg_max_width:
  "startsWith a ''--max-width=''
     \<Longrightarrow> parseArg opts a
           = opts\<lparr>maxWidth := js_or (Number (at_index (split CHR ''='' a) 1)) (maxWidth opts)\<rparr>"
  using not_flag_if_prefixed[of a] by (simp add: parseArg_def)

lemma parseArg_quality:
  "startsWith a ''--quality=''
     \<Longrightarrow> parseArg opts a
           = opts\<lparr>quality := js_or (Number (at_index (split CHR ''='' a) 1)) (quality opts)\<rparr>"
  using not_flag_if_prefixed[of a] not_quality_if_max_width[of a] by (simp add: parseArg_def)

lemma parseArg_formats:
  assumes "startsWith a ''--formats=''"
  shows "\<exists>v. at_index (split CHR ''='' a) 1 = Some v
           \<and> parseArg opts a = (if v = [] then opts else opts\<lparr>formats := format_tokens v\<rparr>)"
proof -
  from startsWith_value[OF assms] obtain v where v: "at_index (split CHR ''='' a) 1 = Some v"
    by auto
  have "parseArg opts a = (if v = [] then opts else opts\<lparr>formats := format_tokens v\<rparr>)"
    using assms not_flag_if_prefixed[of a] not_formats_if_max_width[of a]
      not_formats_if_quality[of a] v
    by (simp add: parseArg_def)
  with v show ?thesis by blast
qed

lemma parseArg_maxWidth:
  "maxWidth (parseArg opts a)
     = (if startsWith a ''--max-width='' \<and> truthy (Number (at_index (split CHR ''='' a) 1))
        then Number (at_index (split CHR ''='' a) 1) else maxWidth opts)"
proof (cases "startsWith a ''--max-width=''")
  case True
  then show ?thesis by (simp add: parseArg_max_width js_or_def)
next
  case False
  then show ?thesis by (simp add: parseArg_def split: option.splits)
qed

lemma parseArg_quality_field:
  "quality (parseArg opts a)
     = (if startsWith a ''--quality='' \<and> truthy (Number (at_index (split CHR ''='' a) 1))
        then Number (at_index (split CHR ''='' a) 1) else quality opts)"
proof (cases "startsWith a ''--quality=''")
  case True
  then show ?thesis by (simp add: parseArg_quality js_or_def)
next
  case False
  then show ?thesis by (simp add: parseArg_def split: option.splits)
qed

lemma foldl_parseArg_maxWidth:
  "(truthy (maxWidth opts) \<longrightarrow> truthy (maxWidth (foldl parseArg opts args)))
   \<and> (maxWidth (foldl parseArg opts args) = maxWidth opts
      \<or> (\<exists>a\<in>set args. startsWith a ''--max-width=''
            \<and> maxWidth (foldl parseArg opts args) = Number (at_index (split CHR ''='' a) 1)))"
proof (induction args arbitrary: opts)
  case Nil
  show ?case by simp
next
  case (Cons a args)
  show ?case using Cons.IH[of "parseArg opts a"] by (auto simp: parseArg_maxWidth split: if_splits)
qed

lemma foldl_parseArg_quality:
  "(truthy (quality opts) \<longrightarrow> truthy (quality (foldl parseArg opts args)))
   \<and> (quality (foldl parseArg opts args) = quality opts
      \<or> (\<exists>a\<in>set args. startsWith a ''--quality=''
            \<and> quality (foldl parseArg opts args) = Number (at_index (split CHR ''='' a) 1)))"
proof (induction args arbitrary: opts)
  case Nil
  show ?case by simp
next
  case (Cons a args)
  show ?case using Cons.IH[of "parseArg opts a"]
    by (auto simp: parseArg_quality_field split: if_splits)
qed

lemma foldl_parseArg_unchanged:
  "(\<forall>a\<in>set args. parseArg opts a = opts) \<Longrightarrow> foldl parseArg opts args = opts"
  by (induction args) simp_all

lemma js_or_falsy: "\<not> truthy n \<Longrightarrow> js_or n m = m"
  by (simp add: js_or_def)

text \<open>
  Claim C5, as amended. \<^verbatim>\<open>parseArgs\<close> returns a Configuration for every argument list
  (it has no failing branch: the value after \<^verbatim>\<open>=\<close> always exists where it is read).
  An argument leaves the Configuration as it was when it is not recognized, when it is a
  numeric option whose value converts to NaN or zero, and when it is \<^verbatim>\<open>--formats=\<close>
  with an empty value; so with only such arguments the result is the defaults. A
  \<^verbatim>\<open>--formats=\<close> option with a non-empty value replaces the formats by its tokens,
  trimmed, lower-cased and without the empty ones: each token is non-empty, has no white
  space at its ends, no upper-case letter and no comma.
\<close>

theorem parseArgs_permissive:
  "(\<not> recognized a \<longrightarrow> parseArg opts a = opts)
   \<and> ((startsWith a ''--max-width='' \<or> startsWith a ''--quality='')
        \<and> \<not> truthy (Number (at_index (split CHR ''='' a) 1)) \<longrightarrow> parseArg opts a = opts)
   \<and> (startsWith a ''--formats='' \<longrightarrow>
        (\<exists>v. at_index (split CHR ''='' a) 1 = Some v
            \<and> parseArg opts a = (if v = [] then opts else opts\<lparr>formats := format_tokens v\<rparr>)))
   \<and> (\<forall>t\<in>set (format_tokens v).
         t \<noteq> [] \<and> trim t = t \<and> toLowerCase t = t \<and> (\<forall>c\<in>set t. \<not> isUpper c)
         \<and> CHR '','' \<notin> set t \<and> (\<exists>s\<in>set (split CHR '','' v). t = toLowerCase (trim s)))
   \<and> ((\<forall>b\<in>set (drop 2 argv).
          \<not> recognized b
          \<or> (startsWith b ''--max-width='' \<or> startsWith b ''--quality='')
              \<and> \<not> truthy (Number (at_index (split CHR ''='' b) 1))
          \<or> startsWith b ''--formats='' \<and> at_index (split CHR ''='' b) 1 = Some [])
        \<longrightarrow> parseArgs argv = default_opts)"
proof -
  have num: "parseArg o' b = o'"
    if "(startsWith b ''--max-width='' \<or> startsWith b ''--quality='')
        \<and> \<not> truthy (Number (at_index (split CHR ''='' b) 1))" for o' b
    using that by (auto simp: parseArg_max_width parseArg_quality js_or_falsy)
  have fmt: "parseArg o' b = o'"
    if "startsWith b ''--formats='' \<and> at_index (split CHR ''='' b) 1 = Some []" for o' b
    using that parseArg_formats[of b o'] by auto
  have all: "parseArgs argv = default_opts"
    if h: "\<forall>b\<in>set (drop 2 argv).
          \<not> recognized b
          \<or> (startsWith b ''--max-width='' \<or> startsWith b ''--quality='')
              \<and> \<not> truthy (Number (at_index (split CHR ''='' b) 1))
          \<or> startsWith b ''--formats='' \<and> at_index (split CHR ''='' b) 1 = Some []"
  proof -
    have "\<forall>b\<in>set (drop 2 argv). parseArg default_opts b = default_opts"
      using h num fmt parseArg_unrecognized by blast
    then show ?thesis unfolding parseArgs_def by (rule foldl_parseArg_unchanged)
  qed
  show ?thesis
  proof (intro conjI impI)
    assume "\<not> recognized a" then show "parseArg opts a = opts" by (rule parseArg_unrecognized)
  next
    assume "(startsWith a ''--max-width='' \<or> startsWith a ''--quality='')
        \<and> \<not> truthy (Number (at_index (split CHR ''='' a) 1))"
    then show "parseArg opts a = opts" by (rule num)
  next
    assume "startsWith a ''--formats=''"
    then show "\<exists>v. at_index (split CHR ''='' a) 1 = Some v
            \<and> parseArg opts a = (if v = [] then opts else opts\<lparr>formats := format_tokens v\<rparr>)"
      by (rule parseArg_formats)
  next
    show "\<forall>t\<in>set (format_tokens v).
         t \<noteq> [] \<and> trim t = t \<and> toLowerCase t = t \<and> (\<forall>c\<in>set t. \<not> isUpper c)
         \<and> CHR '','' \<notin> set t \<and> (\<exists>s\<in>set (split CHR '','' v). t = toLowerCase (trim s))"
      by (rule format_tokens_props)
  next
    assume "\<forall>b\<in>set (drop 2 argv).
          \<not> recognized b
          \<or> (startsWith b ''--max-width='' \<or> startsWith b ''--quality='')
              \<and> \<not> truthy (Number (at_index (split CHR ''='' b) 1))
          \<or> startsWith b ''--formats='' \<and> at_index (split CHR ''='' b) 1 = Some []"
    then show "parseArgs argv = default_opts" by (rule all)
  qed
qed


theorem parseArgs_permissive_witness:
  "parseArgs [''node'', ''index.mjs'', ''--verbose'', ''--max-width=abc'', ''--quality=0'',
              ''--formats='', ''--max-width'']
     = default_opts
   \<and> parseArg default_opts ''--formats= WebP, ,PNG ''
     = default_opts\<lparr>formats := [''webp'', ''png'']\<rparr>"
proof -
  let ?argv = "[''node'', ''index.mjs'', ''--verbose'', ''--max-width=abc'', ''--quality=0'',
                ''--formats='', ''--max-width'']"
  let ?a = "''--formats= WebP, ,PNG ''"
  have h: "\<forall>b\<in>set (drop 2 ?argv).
          \<not> recognized b
          \<or> (startsWith b ''--max-width='' \<or> startsWith b ''--quality='')
              \<and> \<not> truthy (Number (at_index (split CHR ''='' b) 1))
          \<or> startsWith b ''--formats='' \<and> at_index (split CHR ''='' b) 1 = Some []"
    by code_simp
  have s: "startsWith ?a ''--formats=''" by (simp add: startsWith_def)
  have v: "at_index (split CHR ''='' ?a) 1 = Some '' WebP, ,PNG ''" by (simp add: at_index_def)
  have f: "format_tokens '' WebP, ,PNG '' = [''webp'', ''png'']" by code_simp
  note t = parseArgs_permissive[of ?a default_opts "'',''" ?argv]
  from t have t5: "(\<forall>b\<in>set (drop 2 ?argv).
          \<not> recognized b
          \<or> (startsWith b ''--max-width='' \<or> startsWith b ''--quality='')
              \<and> \<not> truthy (Number (at_index (split CHR ''='' b) 1))
          \<or> startsWith b ''--formats='' \<and> at_index (split CHR ''='' b) 1 = Some [])
        \<longrightarrow> parseArgs ?argv = default_opts"
    by (elim conjE)
  have c1: "parseArgs ?argv = default_opts" by (rule mp[OF t5 h])
  from t have "startsWith ?a ''--formats='' \<longrightarrow>
        (\<exists>v. at_index (split CHR ''='' ?a) 1 = Some v
            \<and> parseArg default_opts ?a
                = (if v = [] then default_opts else default_opts\<lparr>formats := format_tokens v\<rparr>))"
    by (elim conjE)
  from mp[OF this s] obtain w where
    w: "at_index (split CHR ''='' ?a) 1 = Some w"
    "parseArg default_opts ?a
       = (if w = [] then default_opts else default_opts\<lparr>formats := format_tokens w\<rparr>)"
    by blast
  from w(1) v have "w = '' WebP, ,PNG ''" by simp
  with w(2) f have c2: "parseArg default_opts ?a = default_opts\<lparr>formats := [''webp'', ''png'']\<rparr>"
    by simp
  show ?thesis using c1 c2 by (intro conjI)
qed

text \<open>
  The claim as stated fails for a \<^verbatim>\<open>--formats=\<close> value that is not empty and has only
  empty tokens: the resulting list is empty and it replaces the default formats.
\<close>

theorem formats_empty_list_counterexample:
  "format_tokens '','' = []
   \<and> formats (parseArgs [''node'', ''index.mjs'', ''--formats=,'']) = []
   \<and> formats default_opts = [''webp'', ''jpeg'']"
  by code_simp

text \<open>
  Claim C6, as amended. For every argument list the resolved \<^verbatim>\<open>maxWidth\<close> and
  \<^verbatim>\<open>quality\<close> are numbers that are neither NaN nor zero: each is its default (1600,
  80) or the conversion \<^verbatim>\<open>Number\<close> of the value of one of its options. An option
  replaces the current value exactly when its value converts to a number that is neither
  NaN nor zero; no sign, integrality or range is checked.
\<close>

theorem resolved_numbers:
  "truthy (maxWidth (parseArgs argv)) \<and> truthy (quality (parseArgs argv))
   \<and> (maxWidth (parseArgs argv) = Fin 1600
       \<or> (\<exists>a\<in>set (drop 2 argv). startsWith a ''--max-width=''
             \<and> maxWidth (parseArgs argv) = Number (at_index (split CHR ''='' a) 1)))
   \<and> (quality (parseArgs argv) = Fin 80
       \<or> (\<exists>a\<in>set (drop 2 argv). startsWith a ''--quality=''
             \<and> quality (parseArgs argv) = Number (at_index (split CHR ''='' a) 1)))
   \<and> maxWidth (parseArg opts a)
       = (if startsWith a ''--max-width='' \<and> truthy (Number (at_index (split CHR ''='' a) 1))
          then Number (at_index (split CHR ''='' a) 1) else maxWidth opts)
   \<and> quality (parseArg opts a)
       = (if startsWith a ''--quality='' \<and> truthy (Number (at_index (split CHR ''='' a) 1))
          then Number (at_index (split CHR ''='' a) 1) else quality opts)"
proof -
  have m: "truthy (maxWidth default_opts)" "maxWidth default_opts = Fin 1600"
    and q: "truthy (quality default_opts)" "quality default_opts = Fin 80"
    by (simp_all add: default_opts_def)
  have mw: "truthy (maxWidth (parseArgs argv))"
    and mv: "maxWidth (parseArgs argv) = Fin 1600
       \<or> (\<exists>a\<in>set (drop 2 argv). startsWith a ''--max-width=''
             \<and> maxWidth (parseArgs argv) = Number (at_index (split CHR ''='' a) 1))"
    using foldl_parseArg_maxWidth[of default_opts "drop 2 argv"] m
    unfolding parseArgs_def by simp_all
  have qw: "truthy (quality (parseArgs argv))"
    and qv: "quality (parseArgs argv) = Fin 80
       \<or> (\<exists>a\<in>set (drop 2 argv). startsWith a ''--quality=''
             \<and> quality (parseArgs argv) = Number (at_index (split CHR ''='' a) 1))"
    using foldl_parseArg_quality[of default_opts "drop 2 argv"] q
    unfolding parseArgs_def by simp_all
  show ?thesis
    by (intro conjI) (rule mw qw mv qv parseArg_maxWidth parseArg_quality_field)+
qed

theorem resolved_numbers_witness:
  "maxWidth (parseArgs [''node'', ''index.mjs'', ''--max-width=800'', ''--quality=0'']) = Fin 800
   \<and> truthy (maxWidth (parseArgs [''node'', ''index.mjs'', ''--max-width=800'', ''--quality=0'']))
   \<and> quality (parseArgs [''node'', ''index.mjs'', ''--max-width=800'', ''--quality=0'']) = Fin 80
   \<and> truthy (quality (parseArgs [''node'', ''index.mjs'', ''--max-width=800'', ''--quality=0'']))"
proof -
  let ?argv = "[''node'', ''index.mjs'', ''--max-width=800'', ''--quality=0'']"
  have v: "maxWidth (parseArgs ?argv) = Fin 800" and w: "quality (parseArgs ?argv) = Fin 80"
    by code_simp+
  note t = resolved_numbers[of ?argv default_opts "''--quality=0''"]
  from t have a: "truthy (maxWidth (parseArgs ?argv))" by (rule conjunct1)
  from t have b: "truthy (quality (parseArgs ?argv))" by (elim conjE)
  show ?thesis using v a w b by (intro conjI)
qed

text \<open>
  The claim as stated fails for a negative or an out-of-range value: \<^verbatim>\<open>Number\<close>
  converts \<^verbatim>\<open>-5\<close> and \<^verbatim>\<open>500\<close> to numbers that are truthy, and they are stored.
\<close>

theorem configuration_range_counterexample:
  "maxWidth (parseArgs [''node'', ''index.mjs'', ''--max-width=-5'', ''--quality=500'']) = Fin (- 5)
   \<and> \<not> spec_positive_integer (Fin (- 5))
   \<and> quality (parseArgs [''node'', ''index.mjs'', ''--max-width=-5'', ''--quality=500'']) = Fin 500
   \<and> \<not> spec_quality_range (Fin 500)"
  by code_simp

section \<open>Running twice\<close>

lemma main_loop_results_grow: "set acc \<subseteq> set (fst (main_loop cd dn opts fs acc w))"
  by (subst main_loop_acc) simp

lemma main_loop_snd_acc:
  "snd (main_loop cd dn opts fs acc w) = snd (main_loop cd dn opts fs [] w)"
  by (subst main_loop_acc) simp

lemma processImage_all_exist:
  assumes "\<not> overwrite opts" and "reaches_fanout cd f opts"
    and "\<forall>s\<in>set (outputs_of dn f opts). files w (outFile s) \<noteq> None"
  shows "fst (processImage cd dn f opts w)
           = Inr (map (\<lambda>s. result_of (path_basename f) s SkippedExists) (outputs_of dn f opts))"
proof -
  from processImage_fanout[OF assms(2), of w dn] obtain work w3 where
    h: "files w3 = files w"
    "processImage cd dn f opts w
       = emit_results cd opts (path_basename f) work (outputs_of dn f opts) [] w3"
    by blast
  have "\<forall>s\<in>set (outputs_of dn f opts). files w3 (outFile s) \<noteq> None"
    using assms(3) h(1) by simp
  from emit_results_all_exist[OF assms(1) this, of cd "path_basename f" work "[]"] h(2)
  show ?thesis by simp
qed

lemma processImage_written:
  assumes "processImage cd dn f opts w = (Inr rs, w')" and "r \<in> set rs" and "status r = Written"
  shows "reaches_fanout cd f opts
       \<and> (\<forall>s\<in>set (outputs_of dn f opts). files w' (outFile s) \<noteq> None)
       \<and> r\<lparr>status := SkippedExists\<rparr>
           \<in> set (map (\<lambda>s. result_of (path_basename f) s SkippedExists) (outputs_of dn f opts))"
proof -
  have fo: "reaches_fanout cd f opts" by (rule processImage_Inr_fanout[OF assms(1)])
  from processImage_fanout[OF fo, of w dn] assms(1) obtain work w3 where
    "emit_results cd opts (path_basename f) work (outputs_of dn f opts) [] w3 = (Inr rs, w')"
    by auto
  from emit_results_Inr[OF this] obtain sts where
    sts: "length sts = length (outputs_of dn f opts)"
    "rs = map2 (result_of (path_basename f)) (outputs_of dn f opts) sts"
    "\<not> dryRun opts \<longrightarrow> (\<forall>s\<in>set (outputs_of dn f opts). files w' (outFile s) \<noteq> None)"
    "dryRun opts \<longrightarrow> Written \<notin> set sts" by auto
  from assms(2) sts(2) obtain s st where
    s: "(s, st) \<in> set (zip (outputs_of dn f opts) sts)" "r = result_of (path_basename f) s st"
    by auto
  have st: "st = Written" using assms(3) s(2) by (simp add: result_of_def)
  have "st \<in> set sts" using s(1) by (rule set_zip_rightD)
  with st sts(4) have nd: "\<not> dryRun opts" by auto
  have sm: "s \<in> set (outputs_of dn f opts)" using s(1) by (rule set_zip_leftD)
  have "r\<lparr>status := SkippedExists\<rparr> = result_of (path_basename f) s SkippedExists"
    using s(2) by (simp add: result_of_def)
  with sm have "r\<lparr>status := SkippedExists\<rparr>
           \<in> set (map (\<lambda>s. result_of (path_basename f) s SkippedExists) (outputs_of dn f opts))"
    by auto
  with fo nd sts(3) show ?thesis by blast
qed

lemma main_loop_rerun:
  assumes "\<not> overwrite opts"
  shows "r \<in> set (fst (main_loop cd dn opts fs [] w)) \<Longrightarrow> status r = Written
     \<Longrightarrow> (\<forall>p. files (snd (main_loop cd dn opts fs [] w)) p \<noteq> None \<longrightarrow> files v p \<noteq> None)
     \<Longrightarrow> r\<lparr>status := SkippedExists\<rparr> \<in> set (fst (main_loop cd dn opts fs acc v))"
proof (induction fs arbitrary: w v acc)
  case Nil
  then show ?case by simp
next
  case (Cons f fs)
  obtain x w1 where p1: "processImage cd dn f opts w = (x, w1)"
    by (cases "processImage cd dn f opts w")
  obtain y v1 where p2: "processImage cd dn f opts v = (y, v1)"
    by (cases "processImage cd dn f opts v")
  have v1: "\<And>p. files v p \<noteq> None \<Longrightarrow> files v1 p \<noteq> None"
    using processImage_files_mono[of v _ cd dn f opts] p2 by simp
  obtain acc2 v2 where c2:
    "main_loop cd dn opts (f # fs) acc v = main_loop cd dn opts fs acc2 v2"
    "files v2 = files v1" "set acc \<subseteq> set acc2"
    "\<And>rs. y = Inr rs \<Longrightarrow> set rs \<subseteq> set acc2"
  proof (cases y)
    case (Inl err)
    show ?thesis
      by (rule that[of acc "v1\<lparr>stderr := stderr v1 @ [error_line f err]\<rparr>"])
        (use p2 Inl in simp_all)
  next
    case (Inr rs)
    show ?thesis by (rule that[of "acc @ rs" v1]) (use p2 Inr in simp_all)
  qed
  show ?case
  proof (cases x)
    case (Inl err)
    let ?w = "w1\<lparr>stderr := stderr w1 @ [error_line f err]\<rparr>"
    have l1: "main_loop cd dn opts (f # fs) [] w = main_loop cd dn opts fs [] ?w"
      using p1 Inl by simp
    have r: "r \<in> set (fst (main_loop cd dn opts fs [] ?w))" using Cons.prems(1) l1 by simp
    have e: "\<forall>p. files (snd (main_loop cd dn opts fs [] ?w)) p \<noteq> None \<longrightarrow> files v2 p \<noteq> None"
      using Cons.prems(3) l1 v1 c2(2) by simp
    from Cons.IH[OF r Cons.prems(2) e, of acc2] show ?thesis using c2(1) by simp
  next
    case (Inr rs)
    have l1: "main_loop cd dn opts (f # fs) [] w = main_loop cd dn opts fs rs w1"
      using p1 Inr by simp
    have res: "fst (main_loop cd dn opts (f # fs) [] w) = rs @ fst (main_loop cd dn opts fs [] w1)"
      unfolding l1 by (subst main_loop_acc) simp
    have end1: "snd (main_loop cd dn opts (f # fs) [] w) = snd (main_loop cd dn opts fs [] w1)"
      unfolding l1 by (rule main_loop_snd_acc)
    from Cons.prems(1) res consider "r \<in> set rs" | "r \<in> set (fst (main_loop cd dn opts fs [] w1))"
      by auto
    then show ?thesis
    proof cases
      case 1
      from processImage_written[OF p1[unfolded Inr] 1 Cons.prems(2)] have
        fo: "reaches_fanout cd f opts"
        and ex: "\<forall>s\<in>set (outputs_of dn f opts). files w1 (outFile s) \<noteq> None"
        and mem: "r\<lparr>status := SkippedExists\<rparr>
           \<in> set (map (\<lambda>s. result_of (path_basename f) s SkippedExists) (outputs_of dn f opts))"
        by blast+
      have "\<forall>s\<in>set (outputs_of dn f opts). files v (outFile s) \<noteq> None"
      proof
        fix s assume "s \<in> set (outputs_of dn f opts)"
        with ex have "files w1 (outFile s) \<noteq> None" by simp
        then have "files (snd (main_loop cd dn opts fs [] w1)) (outFile s) \<noteq> None"
          by (rule main_loop_files_mono)
        with Cons.prems(3) end1 show "files v (outFile s) \<noteq> None" by simp
      qed
      from processImage_all_exist[OF assms fo this] p2
      have "y = Inr (map (\<lambda>s. result_of (path_basename f) s SkippedExists) (outputs_of dn f opts))"
        by simp
      from c2(4)[OF this] mem have "r\<lparr>status := SkippedExists\<rparr> \<in> set acc2" by blast
      with main_loop_results_grow[of acc2 cd dn opts fs v2] c2(1) show ?thesis by auto
    next
      case 2
      have e: "\<forall>p. files (snd (main_loop cd dn opts fs [] w1)) p \<noteq> None \<longrightarrow> files v2 p \<noteq> None"
        using Cons.prems(3) end1 v1 c2(2) by simp
      from Cons.IH[OF 2 Cons.prems(2) e, of acc2] show ?thesis using c2(1) by simp
    qed
  qed
qed

text \<open>
  Claim C2. Run the program twice with the same arguments, \<^verbatim>\<open>overwrite\<close> false, the
  same source directory and codec, the second run starting from the files the first
  left. Every result that the first run reported as written is reported by the second
  run with status skipped-exists (same source, output and format).
\<close>

theorem rerun_idempotent:
  assumes "\<not> overwrite (parseArgs argv)"
    and "r \<in> set (allResults (main cd ev argv w))" and "status r = Written"
  shows "r\<lparr>status := SkippedExists\<rparr>
           \<in> set (allResults (main cd ev argv (after (main cd ev argv w))))"
proof -
  from assms(2) obtain entries where
    st: "images_accessible ev" "mkdir_error ev = None" "readdir ev = Inr entries"
    by (cases "readdir ev"; cases "mkdir_error ev"; cases "images_accessible ev")
      (auto simp: main_def Let_def)
  let ?fs = "listImageFiles (IMAGES_DIR (dirname ev)) entries"
  let ?w1 = "after (main cd ev argv w)"
  have a: "allResults (main cd ev argv w) = fst (main_loop cd (dirname ev) (parseArgs argv) ?fs [] w)"
    by (rule main_startup(2)[OF st])
  have b: "?w1 = snd (main_loop cd (dirname ev) (parseArgs argv) ?fs [] w)"
    by (rule main_startup(3)[OF st])
  have c: "allResults (main cd ev argv ?w1)
             = fst (main_loop cd (dirname ev) (parseArgs argv) ?fs [] ?w1)"
    by (rule main_startup(2)[OF st])
  have "r\<lparr>status := SkippedExists\<rparr>
          \<in> set (fst (main_loop cd (dirname ev) (parseArgs argv) ?fs [] ?w1))"
  proof (rule main_loop_rerun[OF assms(1) _ assms(3)])
    show "r \<in> set (fst (main_loop cd (dirname ev) (parseArgs argv) ?fs [] w))"
      using assms(2) a by simp
    show "\<forall>p. files (snd (main_loop cd (dirname ev) (parseArgs argv) ?fs [] w)) p \<noteq> None
            \<longrightarrow> files ?w1 p \<noteq> None"
      using b by simp
  qed
  then show ?thesis using c by simp
qed


theorem rerun_idempotent_witness:
  "\<lparr>src = ''a.png'', out = ''a.webp'', res_fmt = ''webp'', status = SkippedExists\<rparr>
     \<in> set (allResults (main sample_codec
         (sample_env [file_entry ''a.png'', dir_entry ''formatted'', file_entry ''b.jpg''])
         [''node'', ''index.mjs'']
         (after (main sample_codec
            (sample_env [file_entry ''a.png'', dir_entry ''formatted'', file_entry ''b.jpg''])
            [''node'', ''index.mjs''] empty_world))))"
proof -
  let ?ev = "sample_env [file_entry ''a.png'', dir_entry ''formatted'', file_entry ''b.jpg'']"
  let ?argv = "[''node'', ''index.mjs'']"
  let ?r = "\<lparr>src = ''a.png'', out = ''a.webp'', res_fmt = ''webp'', status = Written\<rparr>"
  have h1: "\<not> overwrite (parseArgs ?argv)" by (simp add: parseArgs_def default_opts_def)
  have h2: "?r \<in> set (allResults (main sample_codec ?ev ?argv empty_world))" by code_simp
  have h3: "status ?r = Written" by simp
  from rerun_idempotent[OF h1 h2 h3] show ?thesis by simp
qed

section \<open>The states a run reaches later\<close>

lemma later_trans:
  assumes "later cd opts w2 w3" and "later cd opts w1 w2"
  shows "later cd opts w1 w3"
  using assms by (induction rule: later.induct) (auto intro: later.intros)

lemma later_calls: "later cd opts w (w\<lparr>calls := cs\<rparr>)"
  using later_log[OF later_refl, where cd = cd and opts = opts and w = w and cs = cs
      and es = "stderr w"] by simp

lemma later_stderr: "later cd opts w (w\<lparr>stderr := es\<rparr>)"
  using later_log[OF later_refl, where cd = cd and opts = opts and w = w and cs = "calls w"
      and es = es] by simp

lemma later_emit_results:
  "later cd opts w (snd (emit_results cd opts b work specs acc w))"
proof (induction specs arbitrary: acc w)
  case Nil
  show ?case by (simp add: later_refl)
next
  case (Cons spec specs)
  obtain x w1 where e: "emit_one cd opts b work spec w = (x, w1)"
    by (cases "emit_one cd opts b work spec w")
  have l: "later cd opts w w1"
    using later_emit[OF later_refl, where cd = cd and opts = opts and w = w and b = b
        and work = work and spec = spec] e by simp
  show ?case
  proof (cases x)
    case (Inl err)
    then show ?thesis using e l by simp
  next
    case (Inr r)
    have "later cd opts w1 (snd (emit_results cd opts b work specs (acc @ [r]) w1))"
      by (rule Cons.IH)
    from later_trans[OF this l] show ?thesis using e Inr by simp
  qed
qed

lemma later_resize_step: "later cd opts w (snd (resize_step cd m opts pl w))"
  by (auto simp: resize_step_def Let_def later_refl later_calls split: option.splits)

lemma later_processImage: "later cd opts w (snd (processImage cd dn f opts w))"
proof -
  let ?w1 = "w\<lparr>calls := calls w @ [Metadata (sharp f)]\<rparr>"
  have l1: "later cd opts w ?w1" by (rule later_calls)
  show ?thesis
  proof (cases "read_metadata cd (sharp f)")
    case (Inl err)
    then show ?thesis using l1 by (simp add: processImage_def Let_def)
  next
    case (Inr m)
    obtain x w2 where r: "resize_step cd m opts (sharp f) ?w1 = (x, w2)"
      by (cases "resize_step cd m opts (sharp f) ?w1")
    have l2: "later cd opts w w2"
      using later_trans[OF later_resize_step[of cd opts ?w1 m "sharp f"] l1] r by simp
    show ?thesis
    proof (cases x)
      case (Inl err)
      then show ?thesis using Inr r l2 by (simp add: processImage_def Let_def)
    next
      case work: (Inr work)
      let ?w3 = "w2\<lparr>stderr := stderr w2 @ map unsupported_warning
                   (filter (\<lambda>t. \<not> spec_valid_token t) (formats opts))\<rparr>"
      have l3: "later cd opts w ?w3" by (rule later_trans[OF later_stderr l2])
      have "processImage cd dn f opts w
              = emit_results cd opts (path_basename f) work (outputs_of dn f opts) [] ?w3"
        using Inr r work by (simp add: processImage_def Let_def build_outputs_eq outputs_of_def)
      then show ?thesis using later_trans[OF later_emit_results l3] by simp
    qed
  qed
qed

lemma later_main_loop: "later cd opts w (snd (main_loop cd dn opts fs acc w))"
proof (induction fs arbitrary: acc w)
  case Nil
  show ?case by (simp add: later_refl)
next
  case (Cons f fs)
  obtain x w1 where p: "processImage cd dn f opts w = (x, w1)"
    by (cases "processImage cd dn f opts w")
  have l: "later cd opts w w1" using later_processImage[of cd opts w dn f] p by simp
  show ?case
  proof (cases x)
    case (Inl err)
    let ?w = "w1\<lparr>stderr := stderr w1 @ [error_line f err]\<rparr>"
    have "later cd opts w ?w" by (rule later_trans[OF later_stderr l])
    from later_trans[OF Cons.IH this] show ?thesis using p Inl by simp
  next
    case (Inr res)
    from later_trans[OF Cons.IH l] show ?thesis using p Inr by simp
  qed
qed

lemma later_keeps:
  assumes "later cd opts w w'" and "\<not> overwrite opts" and "files w p = Some c"
  shows "files w' p = Some c"
  using assms by (induction rule: later.induct) (simp_all add: emit_one_keeps)

lemma extname_suffix:
  assumes "path_extname p \<noteq> []"
  shows "\<exists>stem. stem \<noteq> [] \<and> path_basename p = stem @ path_extname p"
proof -
  let ?b = "path_basename p"
  let ?t = "takeWhile (\<lambda>c. c \<noteq> CHR ''.'') (rev ?b)"
  from assms have dot: "CHR ''.'' \<in> set ?b" and len: "length ?t + 1 \<noteq> length ?b"
    and e: "path_extname p = CHR ''.'' # rev ?t"
    by (auto simp: path_extname_def Let_def split: if_splits)
  from dot have "dropWhile (\<lambda>c. c \<noteq> CHR ''.'') (rev ?b) \<noteq> []" by auto
  then obtain d rest where d: "dropWhile (\<lambda>c. c \<noteq> CHR ''.'') (rev ?b) = d # rest"
    by (cases "dropWhile (\<lambda>c. c \<noteq> CHR ''.'') (rev ?b)") auto
  have "\<not> (d \<noteq> CHR ''.'')" using hd_dropWhile[of "\<lambda>c. c \<noteq> CHR ''.''" "rev ?b"] d by simp
  then have dd: "d = CHR ''.''" by simp
  have "rev ?b = ?t @ d # rest" using takeWhile_dropWhile_id[of "\<lambda>c. c \<noteq> CHR ''.''" "rev ?b"] d by simp
  then have "rev (rev ?b) = rev (?t @ d # rest)" by simp
  then have b: "?b = rev rest @ CHR ''.'' # rev ?t" using dd by simp
  have "length ?b = length rest + 1 + length ?t" by (subst b) simp
  with len have "rest \<noteq> []" by auto
  with b e show ?thesis by (intro exI[of _ "rev rest"]) simp
qed

lemma path_basename_length: "length (path_basename p) \<le> length p"
proof -
  have "length (takeWhile (\<lambda>c. c \<noteq> CHR ''/'') (dropWhile (\<lambda>c. c = CHR ''/'') (rev p)))
          \<le> length (dropWhile (\<lambda>c. c = CHR ''/'') (rev p))" by (rule length_takeWhile_le)
  also have "\<dots> \<le> length (rev p)" by (rule length_dropWhile_le)
  finally show ?thesis by (simp add: path_basename_def)
qed

lemma nameNoExt_extname:
  "path_basename_ext p (path_extname p) @ path_extname p = path_basename p"
proof (cases "path_extname p = []")
  case True
  then show ?thesis by (simp add: path_basename_ext_def)
next
  case False
  from extname_suffix[OF False] obtain stem where
    stem: "stem \<noteq> []" "path_basename p = stem @ path_extname p" by blast
  have l: "length (path_extname p) < length (path_basename p)" by (subst stem(2)) (use stem(1) in simp)
  have lp: "length (path_extname p) \<le> length p" using l path_basename_length[of p] by simp
  have ne: "path_extname p \<noteq> p" using l path_basename_length[of p] by auto
  have "drop (length (stem @ path_extname p) - length (path_extname p)) (stem @ path_extname p)
          = path_extname p" by simp
  then have d: "drop (length (path_basename p) - length (path_extname p)) (path_basename p)
                  = path_extname p"
    unfolding stem(2)[symmetric] .
  have "take (length (stem @ path_extname p) - length (path_extname p)) (stem @ path_extname p)
          = stem" by simp
  then have t: "take (length (path_basename p) - length (path_extname p)) (path_basename p) = stem"
    unfolding stem(2)[symmetric] .
  show ?thesis using False lp ne l d t stem(2) by (simp add: path_basename_ext_def Let_def)
qed

section \<open>The output loop in closed form\<close>

lemma emit_one_Inr_exact:
  assumes "emit_one cd opts b work spec w = (Inr r, w1)"
  shows "r = result_of b spec (decided_status opts (files w (outFile spec) \<noteq> None))
       \<and> (if decided_status opts (files w (outFile spec) \<noteq> None) = Written
          then encode_error cd work (fn spec) = None
               \<and> (\<exists>d. toFile cd (files w) work (fn spec) (outFile spec) = Wrote d
                      \<and> w1 = w\<lparr>calls := calls w @ write_calls work spec,
                                files := (files w)(outFile spec \<mapsto> d)\<rparr>)
          else w1 = w)"
  using assms
  by (auto simp: emit_one_def Let_def decided_status_def write_calls_def
      split: if_splits option.splits write_result.splits)

lemma exists_before_0:
  "exists_before opts present (s # ss) 0 = (present (outFile s) \<noteq> None)"
  by (simp add: exists_before_def)

lemma exists_before_Suc:
  assumes "emit_one cd opts b work s w = (Inr r, w1)"
  shows "exists_before opts (files w) (s # ss) (Suc i) = exists_before opts (files w1) ss i"
proof -
  from emit_one_Inr_exact[OF assms] have
    c: "if decided_status opts (files w (outFile s) \<noteq> None) = Written
        then (\<exists>d. files w1 = (files w)(outFile s \<mapsto> d)) else w1 = w"
    by (auto split: if_splits)
  show ?thesis
  proof (cases "decided_status opts (files w (outFile s) \<noteq> None)")
    case Written
    then have nd: "\<not> dryRun opts" by (auto simp: decided_status_def split: if_splits)
    from c Written obtain d where "files w1 = (files w)(outFile s \<mapsto> d)" by auto
    then show ?thesis using nd by (auto simp: exists_before_def)
  next
    case SkippedExists
    then have e: "files w (outFile s) \<noteq> None" by (auto simp: decided_status_def split: if_splits)
    from c SkippedExists have "w1 = w" by simp
    then show ?thesis using e by (auto simp: exists_before_def)
  next
    case DryRun
    then have d: "dryRun opts" by (auto simp: decided_status_def split: if_splits)
    from c DryRun have "w1 = w" by simp
    then show ?thesis using d by (auto simp: exists_before_def)
  qed
qed

lemma map_upt_Suc_shift: "map f [0..<Suc n] = f 0 # map (\<lambda>i. f (Suc i)) [0..<n]"
  by (simp add: upt_conv_Cons map_Suc_upt[symmetric] del: upt_Suc)

lemma emit_results_Inr_exact:
  "emit_results cd opts b work specs acc w = (Inr rs, w')
     \<Longrightarrow> rs = acc @ map (\<lambda>i. result_of b (specs ! i)
                              (decided_status opts (exists_before opts (files w) specs i)))
                     [0..<length specs]
       \<and> calls w' = calls w @ concat (map (\<lambda>i.
             if decided_status opts (exists_before opts (files w) specs i) = Written
             then write_calls work (specs ! i) else []) [0..<length specs])
       \<and> (\<forall>i<length specs.
             decided_status opts (exists_before opts (files w) specs i) = Written
             \<longrightarrow> encode_error cd work (fn (specs ! i)) = None
                 \<and> (\<exists>present d. toFile cd present work (fn (specs ! i)) (outFile (specs ! i))
                                     = Wrote d)
                 \<and> files w' (outFile (specs ! i)) \<noteq> None)
       \<and> (\<forall>p. (\<forall>i<length specs.
                  decided_status opts (exists_before opts (files w) specs i) = Written
                  \<longrightarrow> outFile (specs ! i) \<noteq> p)
              \<longrightarrow> files w' p = files w p)"
proof (induction specs arbitrary: acc w)
  case Nil
  then show ?case by simp
next
  case (Cons s ss)
  let ?D = "\<lambda>w specs i. decided_status opts (exists_before opts (files w) specs i)"
  obtain x w1 where e: "emit_one cd opts b work s w = (x, w1)" by (cases "emit_one cd opts b work s w")
  from Cons.prems e obtain r where x: "x = Inr r" by (cases x) simp_all
  note e = e[unfolded x]
  from Cons.prems e have rest: "emit_results cd opts b work ss (acc @ [r]) w1 = (Inr rs, w')" by simp
  note ih = Cons.IH[OF rest]
  note one = emit_one_Inr_exact[OF e]
  have sh: "\<And>i. ?D w (s # ss) (Suc i) = ?D w1 ss i"
    using exists_before_Suc[OF e] by simp
  have d0: "?D w (s # ss) 0 = decided_status opts (files w (outFile s) \<noteq> None)"
    by (simp add: exists_before_0)
  have r: "r = result_of b s (?D w (s # ss) 0)" using one d0 by simp
  have c1: "calls w1 = calls w @ (if ?D w (s # ss) 0 = Written then write_calls work s else [])"
    using one d0 by (auto split: if_splits)
  have files1: "\<And>p. p \<noteq> outFile s \<or> ?D w (s # ss) 0 \<noteq> Written \<Longrightarrow> files w1 p = files w p"
    using one d0 by (auto split: if_splits)
  have ok0: "?D w (s # ss) 0 = Written \<Longrightarrow> encode_error cd work (fn s) = None
      \<and> (\<exists>present d. toFile cd present work (fn s) (outFile s) = Wrote d)
      \<and> files w1 (outFile s) \<noteq> None"
    using one d0 by (auto split: if_splits)
  have A: "rs = acc @ map (\<lambda>i. result_of b ((s # ss) ! i) (?D w (s # ss) i)) [0..<length (s # ss)]"
    using ih r by (simp add: map_upt_Suc_shift sh del: upt_Suc)
  have B: "calls w' = calls w @ concat (map (\<lambda>i.
             if ?D w (s # ss) i = Written then write_calls work ((s # ss) ! i) else [])
             [0..<length (s # ss)])"
    using ih c1 by (simp add: map_upt_Suc_shift sh del: upt_Suc cong: if_cong)
  have C: "\<forall>i<length (s # ss). ?D w (s # ss) i = Written
             \<longrightarrow> encode_error cd work (fn ((s # ss) ! i)) = None
                 \<and> (\<exists>present d. toFile cd present work (fn ((s # ss) ! i))
                                     (outFile ((s # ss) ! i)) = Wrote d)
                 \<and> files w' (outFile ((s # ss) ! i)) \<noteq> None"
  proof (intro allI impI)
    fix i assume i: "i < length (s # ss)" and wr: "?D w (s # ss) i = Written"
    show "encode_error cd work (fn ((s # ss) ! i)) = None
                 \<and> (\<exists>present d. toFile cd present work (fn ((s # ss) ! i))
                                     (outFile ((s # ss) ! i)) = Wrote d)
                 \<and> files w' (outFile ((s # ss) ! i)) \<noteq> None"
    proof (cases i)
      case 0
      have "files w' (outFile s) \<noteq> None"
        using emit_results_files_mono[of w1 "outFile s" cd opts b work ss "acc @ [r]"] rest
          ok0 wr 0 by simp
      then show ?thesis using ok0 wr 0 by simp
    next
      case (Suc j)
      then show ?thesis using ih i wr sh by simp
    qed
  qed
  have D: "\<forall>p. (\<forall>i<length (s # ss). ?D w (s # ss) i = Written \<longrightarrow> outFile ((s # ss) ! i) \<noteq> p)
              \<longrightarrow> files w' p = files w p"
  proof (intro allI impI)
    fix p assume a: "\<forall>i<length (s # ss). ?D w (s # ss) i = Written \<longrightarrow> outFile ((s # ss) ! i) \<noteq> p"
    have "\<forall>i<length ss. ?D w1 ss i = Written \<longrightarrow> outFile (ss ! i) \<noteq> p"
    proof (intro allI impI)
      fix i assume "i < length ss" "?D w1 ss i = Written"
      then show "outFile (ss ! i) \<noteq> p" using a[rule_format, of "Suc i"] sh by simp
    qed
    with ih have "files w' p = files w1 p" by blast
    moreover have "files w1 p = files w p" using files1[of p] a[rule_format, of 0] by auto
    ultimately show "files w' p = files w p" by simp
  qed
  show ?case using A B C D by blast
qed

lemma processImage_reaches:
  assumes "reaches_fanout cd f opts"
  shows "processImage cd dn f opts w
           = emit_results cd opts (path_basename f) (working_pipeline cd f opts)
               (outputs_of dn f opts) [] (fanout_start cd f opts w)"
proof -
  from assms obtain m where m: "read_metadata cd (sharp f) = Inr m"
    by (auto simp: reaches_fanout_def split: sum.splits)
  have s: "resized (sharp f) = None" by (simp add: sharp_def)
  show ?thesis
    using assms m s
    by (auto simp: reaches_fanout_def processImage_def resize_step_def Let_def build_outputs_eq
        outputs_of_def working_pipeline_def fanout_start_def split: if_splits)
qed

lemma emit_results_returns_specs:
  assumes "dryRun opts \<or> (\<forall>s\<in>set specs. encode_error cd work (fn s) = None
             \<and> (\<forall>present. \<exists>d. toFile cd present work (fn s) (outFile s) = Wrote d))"
  shows "\<exists>rs w'. emit_results cd opts b work specs acc w = (Inr rs, w')"
  using assms
proof (induction specs arbitrary: acc w)
  case Nil
  show ?case by simp
next
  case (Cons spec specs)
  have "\<exists>r w1. emit_one cd opts b work spec w = (Inr r, w1)"
  proof (cases "dryRun opts")
    case True
    then show ?thesis by (simp add: emit_one_def)
  next
    case False
    with Cons.prems have e: "encode_error cd work (fn spec) = None"
      and "\<exists>d. toFile cd (files w) work (fn spec) (outFile spec) = Wrote d" by auto
    then obtain d where "toFile cd (files w) work (fn spec) (outFile spec) = Wrote d" by blast
    with e show ?thesis by (simp add: emit_one_def Let_def)
  qed
  then obtain r w1 where e: "emit_one cd opts b work spec w = (Inr r, w1)" by blast
  have "dryRun opts \<or> (\<forall>s\<in>set specs. encode_error cd work (fn s) = None
             \<and> (\<forall>present. \<exists>d. toFile cd present work (fn s) (outFile s) = Wrote d))"
    using Cons.prems by auto
  from Cons.IH[OF this, of "acc @ [r]" w1] e show ?case by simp
qed

lemma emit_one_provenance:
  assumes "files (snd (emit_one cd opts b work spec w)) p = Some d" and "files w p \<noteq> Some d"
  shows "outFile spec = p
       \<and> (\<exists>present. toFile cd present work (fn spec) p = Wrote d
              \<or> (\<exists>e. toFile cd present work (fn spec) p = WriteFailed e (Some d)))"
  using assms
  by (auto simp: emit_one_def Let_def split: if_splits option.splits write_result.splits)

lemma emit_results_provenance:
  "files (snd (emit_results cd opts b work specs acc w)) p = Some d \<Longrightarrow> files w p \<noteq> Some d
     \<Longrightarrow> \<exists>s\<in>set specs. outFile s = p
           \<and> (\<exists>present. toFile cd present work (fn s) p = Wrote d
                  \<or> (\<exists>e. toFile cd present work (fn s) p = WriteFailed e (Some d)))"
proof (induction specs arbitrary: acc w)
  case Nil
  then show ?case by simp
next
  case (Cons spec specs)
  obtain x w1 where e: "emit_one cd opts b work spec w = (x, w1)"
    by (cases "emit_one cd opts b work spec w")
  show ?case
  proof (cases "files w1 p = Some d")
    case True
    from emit_one_provenance[of cd opts b work spec w p d] True e Cons.prems(2)
    show ?thesis by auto
  next
    case False
    from Cons.prems(1) e False obtain r where x: "x = Inr r" by (cases x) auto
    from Cons.prems(1) e x have "files (snd (emit_results cd opts b work specs (acc @ [r]) w1)) p = Some d"
      by simp
    from Cons.IH[OF this False] show ?thesis by auto
  qed
qed

lemma fanout_start_files [simp]: "files (fanout_start cd f opts w) = files w"
  by (simp add: fanout_start_def)

lemma fanout_start_stderr:
  "stderr (fanout_start cd f opts w)
     = stderr w @ map unsupported_warning (filter (\<lambda>t. \<not> spec_valid_token t) (formats opts))"
  by (simp add: fanout_start_def)

lemma processImage_Inr_exact:
  assumes "processImage cd dn f opts w = (Inr rs, w')"
  shows "reaches_fanout cd f opts"
    and "rs = map (\<lambda>i. result_of (path_basename f) (outputs_of dn f opts ! i)
                    (decided_status opts (exists_before opts (files w) (outputs_of dn f opts) i)))
              [0..<length (outputs_of dn f opts)]"
    and "calls w' = calls (fanout_start cd f opts w) @ concat (map (\<lambda>i.
             if decided_status opts (exists_before opts (files w) (outputs_of dn f opts) i) = Written
             then write_calls (working_pipeline cd f opts) (outputs_of dn f opts ! i) else [])
             [0..<length (outputs_of dn f opts)])"
    and "\<forall>i<length (outputs_of dn f opts).
             decided_status opts (exists_before opts (files w) (outputs_of dn f opts) i) = Written
             \<longrightarrow> encode_error cd (working_pipeline cd f opts) (fn (outputs_of dn f opts ! i)) = None
                 \<and> (\<exists>present d. toFile cd present (working_pipeline cd f opts)
                                     (fn (outputs_of dn f opts ! i))
                                     (outFile (outputs_of dn f opts ! i)) = Wrote d)
                 \<and> files w' (outFile (outputs_of dn f opts ! i)) \<noteq> None"
    and "\<forall>p. (\<forall>i<length (outputs_of dn f opts).
                  decided_status opts (exists_before opts (files w) (outputs_of dn f opts) i) = Written
                  \<longrightarrow> outFile (outputs_of dn f opts ! i) \<noteq> p)
              \<longrightarrow> files w' p = files w p"
    and "stderr w' = stderr w @ map unsupported_warning
                                  (filter (\<lambda>t. \<not> spec_valid_token t) (formats opts))"
proof -
  show fo: "reaches_fanout cd f opts" by (rule processImage_Inr_fanout[OF assms])
  have e: "emit_results cd opts (path_basename f) (working_pipeline cd f opts)
             (outputs_of dn f opts) [] (fanout_start cd f opts w) = (Inr rs, w')"
    using processImage_reaches[OF fo, of dn w] assms by simp
  note x = emit_results_Inr_exact[OF e, unfolded fanout_start_files append_Nil]
  from x show "rs = map (\<lambda>i. result_of (path_basename f) (outputs_of dn f opts ! i)
                    (decided_status opts (exists_before opts (files w) (outputs_of dn f opts) i)))
              [0..<length (outputs_of dn f opts)]" by (rule conjunct1)
  from x show "calls w' = calls (fanout_start cd f opts w) @ concat (map (\<lambda>i.
             if decided_status opts (exists_before opts (files w) (outputs_of dn f opts) i) = Written
             then write_calls (working_pipeline cd f opts) (outputs_of dn f opts ! i) else [])
             [0..<length (outputs_of dn f opts)])" by (rule conjunct1[OF conjunct2])
  from x show "\<forall>i<length (outputs_of dn f opts).
             decided_status opts (exists_before opts (files w) (outputs_of dn f opts) i) = Written
             \<longrightarrow> encode_error cd (working_pipeline cd f opts) (fn (outputs_of dn f opts ! i)) = None
                 \<and> (\<exists>present d. toFile cd present (working_pipeline cd f opts)
                                     (fn (outputs_of dn f opts ! i))
                                     (outFile (outputs_of dn f opts ! i)) = Wrote d)
                 \<and> files w' (outFile (outputs_of dn f opts ! i)) \<noteq> None"
    by (rule conjunct1[OF conjunct2[OF conjunct2]])
  from x show "\<forall>p. (\<forall>i<length (outputs_of dn f opts).
                  decided_status opts (exists_before opts (files w) (outputs_of dn f opts) i) = Written
                  \<longrightarrow> outFile (outputs_of dn f opts ! i) \<noteq> p)
              \<longrightarrow> files w' p = files w p"
    by (rule conjunct2[OF conjunct2[OF conjunct2]])
  show "stderr w' = stderr w @ map unsupported_warning
                                  (filter (\<lambda>t. \<not> spec_valid_token t) (formats opts))"
    using emit_results_stderr[of cd opts "path_basename f" "working_pipeline cd f opts"
        "outputs_of dn f opts" "[]" "fanout_start cd f opts w"] e
    by (simp add: fanout_start_stderr)
qed

lemma processImage_returns:
  assumes "reaches_fanout cd f opts"
    and "dryRun opts
         \<or> (\<not> overwrite opts \<and> (\<forall>s\<in>set (outputs_of dn f opts). files w (outFile s) \<noteq> None))
         \<or> (\<forall>s\<in>set (outputs_of dn f opts).
               encode_error cd (working_pipeline cd f opts) (fn s) = None
               \<and> (\<forall>present. \<exists>d. toFile cd present (working_pipeline cd f opts) (fn s) (outFile s)
                                   = Wrote d))"
  shows "\<exists>rs w'. processImage cd dn f opts w = (Inr rs, w')"
proof -
  note p = processImage_reaches[OF assms(1), of dn w]
  from assms(2) consider
    (a) "dryRun opts \<or> (\<forall>s\<in>set (outputs_of dn f opts).
               encode_error cd (working_pipeline cd f opts) (fn s) = None
               \<and> (\<forall>present. \<exists>d. toFile cd present (working_pipeline cd f opts) (fn s) (outFile s)
                                   = Wrote d))"
    | (b) "\<not> overwrite opts" "\<forall>s\<in>set (outputs_of dn f opts). files w (outFile s) \<noteq> None"
    by blast
  then show ?thesis
  proof cases
    case a
    from emit_results_returns_specs[OF a] show ?thesis unfolding p by blast
  next
    case b
    have "\<forall>s\<in>set (outputs_of dn f opts). files (fanout_start cd f opts w) (outFile s) \<noteq> None"
      using b(2) by simp
    from emit_results_all_exist[OF b(1) this] show ?thesis unfolding p by blast
  qed
qed

lemma emit_one_Inl_exact:
  assumes "emit_one cd opts b work spec w = (Inl err, w1)"
  shows "decided_status opts (files w (outFile spec) \<noteq> None) = Written
       \<and> (encode_error cd work (fn spec) = Some err
          \<or> encode_error cd work (fn spec) = None
            \<and> (\<exists>x. toFile cd (files w) work (fn spec) (outFile spec) = WriteFailed err x))
       \<and> calls w1 = calls w @ Clone work # Encode (fn spec)
                      # (if encode_error cd work (fn spec) = None then [ToFile (outFile spec)]
                         else [])"
  using assms
  by (auto simp: emit_one_def Let_def decided_status_def
      split: if_splits option.splits write_result.splits)

lemma emit_results_Inl_exact:
  "emit_results cd opts b work specs acc w = (Inl err, w')
     \<Longrightarrow> \<exists>k<length specs.
           decided_status opts (exists_before opts (files w) specs k) = Written
         \<and> (encode_error cd work (fn (specs ! k)) = Some err
            \<or> encode_error cd work (fn (specs ! k)) = None
              \<and> (\<exists>present x. toFile cd present work (fn (specs ! k)) (outFile (specs ! k))
                                  = WriteFailed err x))
         \<and> calls w' = calls w
             @ concat (map (\<lambda>i.
                 if decided_status opts (exists_before opts (files w) specs i) = Written
                 then write_calls work (specs ! i) else []) [0..<k])
             @ Clone work # Encode (fn (specs ! k))
               # (if encode_error cd work (fn (specs ! k)) = None
                  then [ToFile (outFile (specs ! k))] else [])
         \<and> (\<forall>i<k. decided_status opts (exists_before opts (files w) specs i) = Written
               \<longrightarrow> encode_error cd work (fn (specs ! i)) = None
                   \<and> (\<exists>present d. toFile cd present work (fn (specs ! i)) (outFile (specs ! i))
                                       = Wrote d))"
proof (induction specs arbitrary: acc w)
  case Nil
  then show ?case by simp
next
  case (Cons s ss)
  let ?D = "\<lambda>w specs i. decided_status opts (exists_before opts (files w) specs i)"
  let ?P = "\<lambda>w specs k.
           ?D w specs k = Written
         \<and> (encode_error cd work (fn (specs ! k)) = Some err
            \<or> encode_error cd work (fn (specs ! k)) = None
              \<and> (\<exists>present x. toFile cd present work (fn (specs ! k)) (outFile (specs ! k))
                                  = WriteFailed err x))
         \<and> calls w' = calls w
             @ concat (map (\<lambda>i. if ?D w specs i = Written
                 then write_calls work (specs ! i) else []) [0..<k])
             @ Clone work # Encode (fn (specs ! k))
               # (if encode_error cd work (fn (specs ! k)) = None
                  then [ToFile (outFile (specs ! k))] else [])
         \<and> (\<forall>i<k. ?D w specs i = Written
               \<longrightarrow> encode_error cd work (fn (specs ! i)) = None
                   \<and> (\<exists>present d. toFile cd present work (fn (specs ! i)) (outFile (specs ! i))
                                       = Wrote d))"
  obtain x w1 where e: "emit_one cd opts b work s w = (x, w1)" by (cases "emit_one cd opts b work s w")
  have d0: "?D w (s # ss) 0 = decided_status opts (files w (outFile s) \<noteq> None)"
    by (simp add: exists_before_0)
  show ?case
  proof (cases x)
    case (Inl e1)
    with Cons.prems e have eq: "e1 = err" "w1 = w'" by simp_all
    note one = emit_one_Inl_exact[OF e[unfolded Inl eq]]
    have "?P w (s # ss) 0" using one d0 by auto
    then show ?thesis by (intro exI[of _ 0]) simp
  next
    case (Inr r)
    note e = e[unfolded Inr]
    from Cons.prems e have rest: "emit_results cd opts b work ss (acc @ [r]) w1 = (Inl err, w')"
      by simp
    from Cons.IH[OF rest] obtain k where k: "k < length ss" and ih: "?P w1 ss k" by blast
    note one = emit_one_Inr_exact[OF e]
    have sh: "\<And>i. ?D w (s # ss) (Suc i) = ?D w1 ss i"
      using exists_before_Suc[OF e] by simp
    have c1: "calls w1 = calls w @ (if ?D w (s # ss) 0 = Written then write_calls work s else [])"
      using one d0 by (auto split: if_splits)
    have ok0: "?D w (s # ss) 0 = Written \<Longrightarrow> encode_error cd work (fn s) = None
        \<and> (\<exists>present d. toFile cd present work (fn s) (outFile s) = Wrote d)"
      using one d0 by (auto split: if_splits)
    have A: "?D w (s # ss) (Suc k) = Written" using ih sh by simp
    have B: "encode_error cd work (fn ((s # ss) ! Suc k)) = Some err
            \<or> encode_error cd work (fn ((s # ss) ! Suc k)) = None
              \<and> (\<exists>present x. toFile cd present work (fn ((s # ss) ! Suc k))
                    (outFile ((s # ss) ! Suc k)) = WriteFailed err x)"
      using ih by simp
    have C: "calls w' = calls w
             @ concat (map (\<lambda>i. if ?D w (s # ss) i = Written
                 then write_calls work ((s # ss) ! i) else []) [0..<Suc k])
             @ Clone work # Encode (fn ((s # ss) ! Suc k))
               # (if encode_error cd work (fn ((s # ss) ! Suc k)) = None
                  then [ToFile (outFile ((s # ss) ! Suc k))] else [])"
      using ih c1 by (simp add: map_upt_Suc_shift sh del: upt_Suc cong: if_cong)
    have D: "\<forall>i<Suc k. ?D w (s # ss) i = Written
               \<longrightarrow> encode_error cd work (fn ((s # ss) ! i)) = None
                   \<and> (\<exists>present d. toFile cd present work (fn ((s # ss) ! i))
                          (outFile ((s # ss) ! i)) = Wrote d)"
    proof (intro allI impI)
      fix i assume i: "i < Suc k" and wr: "?D w (s # ss) i = Written"
      show "encode_error cd work (fn ((s # ss) ! i)) = None
                   \<and> (\<exists>present d. toFile cd present work (fn ((s # ss) ! i))
                          (outFile ((s # ss) ! i)) = Wrote d)"
      proof (cases i)
        case 0
        then show ?thesis using ok0 wr by simp
      next
        case (Suc j)
        then show ?thesis using ih i wr sh by simp
      qed
    qed
    have "Suc k < length (s # ss)" using k by simp
    moreover have "?P w (s # ss) (Suc k)" using A B C D by blast
    ultimately show ?thesis by blast
  qed
qed

lemma processImage_Inl_exact:
  assumes "processImage cd dn f opts w = (Inl err, w')" and "reaches_fanout cd f opts"
  shows "\<exists>k<length (outputs_of dn f opts).
           decided_status opts (exists_before opts (files w) (outputs_of dn f opts) k) = Written
         \<and> (encode_error cd (working_pipeline cd f opts) (fn (outputs_of dn f opts ! k)) = Some err
            \<or> encode_error cd (working_pipeline cd f opts) (fn (outputs_of dn f opts ! k)) = None
              \<and> (\<exists>present x. toFile cd present (working_pipeline cd f opts)
                    (fn (outputs_of dn f opts ! k)) (outFile (outputs_of dn f opts ! k))
                                  = WriteFailed err x))
         \<and> calls w' = calls (fanout_start cd f opts w)
             @ concat (map (\<lambda>i.
                 if decided_status opts (exists_before opts (files w) (outputs_of dn f opts) i)
                    = Written
                 then write_calls (working_pipeline cd f opts) (outputs_of dn f opts ! i)
                 else []) [0..<k])
             @ Clone (working_pipeline cd f opts) # Encode (fn (outputs_of dn f opts ! k))
               # (if encode_error cd (working_pipeline cd f opts) (fn (outputs_of dn f opts ! k))
                      = None
                  then [ToFile (outFile (outputs_of dn f opts ! k))] else [])
         \<and> (\<forall>i<k. decided_status opts (exists_before opts (files w) (outputs_of dn f opts) i)
                     = Written
               \<longrightarrow> encode_error cd (working_pipeline cd f opts) (fn (outputs_of dn f opts ! i))
                     = None
                   \<and> (\<exists>present d. toFile cd present (working_pipeline cd f opts)
                          (fn (outputs_of dn f opts ! i)) (outFile (outputs_of dn f opts ! i))
                                       = Wrote d))"
proof -
  have e: "emit_results cd opts (path_basename f) (working_pipeline cd f opts)
             (outputs_of dn f opts) [] (fanout_start cd f opts w) = (Inl err, w')"
    using processImage_reaches[OF assms(2), of dn w] assms(1) by simp
  show ?thesis by (rule emit_results_Inl_exact[OF e, unfolded fanout_start_files])
qed

lemma list_of_two: "length xs = 2 \<Longrightarrow> xs = [xs ! 0, xs ! 1]"
  by (cases xs; cases "tl xs") auto

lemma decided_status_Written:
  "(decided_status opts there = Written) = (\<not> (\<not> overwrite opts \<and> there) \<and> \<not> dryRun opts)"
  by (simp add: decided_status_def)

section \<open>The precedence of the statuses\<close>

text \<open>
  Claim C1. Let \<^verbatim>\<open>processImage\<close> process a source file whose OutputSpecs are
  \<^const>\<open>outputs_of\<close>, from a state \<open>w\<close>. When it returns, it returns one result per
  OutputSpec, in order, and the status of each is decided in this precedence: skipped-exists
  if \<^verbatim>\<open>overwrite\<close> is false and the output path exists when the OutputSpec is reached;
  otherwise dry-run if \<^verbatim>\<open>dryRun\<close> is true; otherwise written. The codec calls of the
  output loop are exactly a clone of the working pipeline, the encoder and the write for
  each result with status written, in order, so a skipped or dry-run OutputSpec invokes
  no encoder; a written output is there afterwards; and no other file changes, so a dry
  run writes nothing. It returns whenever the file reaches format fan-out and
  \<^verbatim>\<open>dryRun\<close> is set, or nothing is overwritten and every output exists, or the codec
  accepts every encoder and write of the file. When it raises during the output loop, it
  does so at an OutputSpec that is neither skipped nor a dry run, with the error of that
  OutputSpec's encoder or write, after the calls of the earlier OutputSpecs as above.
\<close>

theorem processImage_precedence:
  "(\<forall>rs w'. processImage cd dn f opts w = (Inr rs, w') \<longrightarrow>
       length rs = length (outputs_of dn f opts)
     \<and> (\<forall>i<length (outputs_of dn f opts).
          rs ! i = result_of (path_basename f) (outputs_of dn f opts ! i)
                     (if \<not> overwrite opts \<and> exists_before opts (files w) (outputs_of dn f opts) i
                      then SkippedExists
                      else if dryRun opts then DryRun else Written)
          \<and> (status (rs ! i) = Written
               \<longrightarrow> files w' (outFile (outputs_of dn f opts ! i)) \<noteq> None))
     \<and> calls w'
         = calls (fanout_start cd f opts w)
           @ concat (map (\<lambda>i. if status (rs ! i) = Written
                               then [Clone (working_pipeline cd f opts),
                                     Encode (fn (outputs_of dn f opts ! i)),
                                     ToFile (outFile (outputs_of dn f opts ! i))]
                               else [])
                      [0..<length (outputs_of dn f opts)])
     \<and> (\<forall>p. (\<forall>i<length (outputs_of dn f opts).
                 status (rs ! i) = Written \<longrightarrow> outFile (outputs_of dn f opts ! i) \<noteq> p)
              \<longrightarrow> files w' p = files w p))
   \<and> (reaches_fanout cd f opts
       \<and> (dryRun opts
           \<or> (\<not> overwrite opts \<and> (\<forall>s\<in>set (outputs_of dn f opts). files w (outFile s) \<noteq> None))
           \<or> (\<forall>s\<in>set (outputs_of dn f opts).
                 encode_error cd (working_pipeline cd f opts) (fn s) = None
                 \<and> (\<forall>present. \<exists>d. toFile cd present (working_pipeline cd f opts) (fn s)
                                      (outFile s) = Wrote d)))
       \<longrightarrow> (\<exists>rs w'. processImage cd dn f opts w = (Inr rs, w')))
   \<and> (\<forall>err w'. reaches_fanout cd f opts \<and> processImage cd dn f opts w = (Inl err, w') \<longrightarrow>
        (\<exists>k<length (outputs_of dn f opts).
            \<not> (\<not> overwrite opts \<and> exists_before opts (files w) (outputs_of dn f opts) k)
          \<and> \<not> dryRun opts
          \<and> (encode_error cd (working_pipeline cd f opts) (fn (outputs_of dn f opts ! k))
               = Some err
             \<or> encode_error cd (working_pipeline cd f opts) (fn (outputs_of dn f opts ! k))
                 = None
               \<and> (\<exists>present x. toFile cd present (working_pipeline cd f opts)
                      (fn (outputs_of dn f opts ! k)) (outFile (outputs_of dn f opts ! k))
                    = WriteFailed err x))
          \<and> calls w'
              = calls (fanout_start cd f opts w)
                @ concat (map (\<lambda>i.
                    if \<not> (\<not> overwrite opts
                          \<and> exists_before opts (files w) (outputs_of dn f opts) i)
                       \<and> \<not> dryRun opts
                    then [Clone (working_pipeline cd f opts),
                          Encode (fn (outputs_of dn f opts ! i)),
                          ToFile (outFile (outputs_of dn f opts ! i))]
                    else []) [0..<k])
                @ Clone (working_pipeline cd f opts) # Encode (fn (outputs_of dn f opts ! k))
                  # (if encode_error cd (working_pipeline cd f opts)
                          (fn (outputs_of dn f opts ! k)) = None
                     then [ToFile (outFile (outputs_of dn f opts ! k))] else [])))"
proof (intro conjI allI impI)
  fix rs w'
  assume p: "processImage cd dn f opts w = (Inr rs, w')"
  let ?specs = "outputs_of dn f opts"
  let ?D = "\<lambda>i. decided_status opts (exists_before opts (files w) ?specs i)"
  note x = processImage_Inr_exact[OF p]
  have rs: "rs = map (\<lambda>i. result_of (path_basename f) (?specs ! i) (?D i)) [0..<length ?specs]"
    by (rule x(2))
  show len: "length rs = length ?specs" by (subst rs) simp
  have nth: "\<And>i. i < length ?specs \<Longrightarrow> rs ! i = result_of (path_basename f) (?specs ! i) (?D i)"
    by (subst rs) simp
  have st: "\<And>i. i < length ?specs \<Longrightarrow> status (rs ! i) = ?D i"
    by (simp add: nth result_of_def)
  show "calls w'
         = calls (fanout_start cd f opts w)
           @ concat (map (\<lambda>i. if status (rs ! i) = Written
                               then [Clone (working_pipeline cd f opts),
                                     Encode (fn (?specs ! i)), ToFile (outFile (?specs ! i))]
                               else [])
                      [0..<length ?specs])"
  proof -
    have "map (\<lambda>i. if status (rs ! i) = Written
                               then [Clone (working_pipeline cd f opts),
                                     Encode (fn (?specs ! i)), ToFile (outFile (?specs ! i))]
                               else [])
                      [0..<length ?specs]
        = map (\<lambda>i. if ?D i = Written then write_calls (working_pipeline cd f opts) (?specs ! i)
                        else [])
                      [0..<length ?specs]"
      by (rule map_cong) (simp_all add: st write_calls_def)
    then show ?thesis by (simp only: x(3))
  qed
  show "\<And>p. \<forall>i<length ?specs. status (rs ! i) = Written \<longrightarrow> outFile (?specs ! i) \<noteq> p
              \<Longrightarrow> files w' p = files w p"
    using x(5) st by simp
  fix i assume i: "i < length ?specs"
  show "rs ! i = result_of (path_basename f) (?specs ! i)
                     (if \<not> overwrite opts \<and> exists_before opts (files w) ?specs i
                      then SkippedExists
                      else if dryRun opts then DryRun else Written)"
    using nth[OF i] by (simp add: decided_status_def)
  assume "status (rs ! i) = Written"
  then show "files w' (outFile (?specs ! i)) \<noteq> None" using x(4) st[OF i] i by simp
next
  assume "reaches_fanout cd f opts
       \<and> (dryRun opts
           \<or> (\<not> overwrite opts \<and> (\<forall>s\<in>set (outputs_of dn f opts). files w (outFile s) \<noteq> None))
           \<or> (\<forall>s\<in>set (outputs_of dn f opts).
                 encode_error cd (working_pipeline cd f opts) (fn s) = None
                 \<and> (\<forall>present. \<exists>d. toFile cd present (working_pipeline cd f opts) (fn s)
                                      (outFile s) = Wrote d)))"
  then show "\<exists>rs w'. processImage cd dn f opts w = (Inr rs, w')"
    using processImage_returns[of cd f opts dn w] by blast
next
  fix err w'
  assume a: "reaches_fanout cd f opts \<and> processImage cd dn f opts w = (Inl err, w')"
  from processImage_Inl_exact[OF conjunct2[OF a] conjunct1[OF a]]
  obtain k where k: "k < length (outputs_of dn f opts)"
    and x: "decided_status opts (exists_before opts (files w) (outputs_of dn f opts) k) = Written
         \<and> (encode_error cd (working_pipeline cd f opts) (fn (outputs_of dn f opts ! k)) = Some err
            \<or> encode_error cd (working_pipeline cd f opts) (fn (outputs_of dn f opts ! k)) = None
              \<and> (\<exists>present x. toFile cd present (working_pipeline cd f opts)
                    (fn (outputs_of dn f opts ! k)) (outFile (outputs_of dn f opts ! k))
                                  = WriteFailed err x))
         \<and> calls w' = calls (fanout_start cd f opts w)
             @ concat (map (\<lambda>i.
                 if decided_status opts (exists_before opts (files w) (outputs_of dn f opts) i)
                    = Written
                 then write_calls (working_pipeline cd f opts) (outputs_of dn f opts ! i)
                 else []) [0..<k])
             @ Clone (working_pipeline cd f opts) # Encode (fn (outputs_of dn f opts ! k))
               # (if encode_error cd (working_pipeline cd f opts) (fn (outputs_of dn f opts ! k))
                      = None
                  then [ToFile (outFile (outputs_of dn f opts ! k))] else [])"
    by blast
  show "\<exists>k<length (outputs_of dn f opts).
            \<not> (\<not> overwrite opts \<and> exists_before opts (files w) (outputs_of dn f opts) k)
          \<and> \<not> dryRun opts
          \<and> (encode_error cd (working_pipeline cd f opts) (fn (outputs_of dn f opts ! k))
               = Some err
             \<or> encode_error cd (working_pipeline cd f opts) (fn (outputs_of dn f opts ! k))
                 = None
               \<and> (\<exists>present x. toFile cd present (working_pipeline cd f opts)
                      (fn (outputs_of dn f opts ! k)) (outFile (outputs_of dn f opts ! k))
                    = WriteFailed err x))
          \<and> calls w'
              = calls (fanout_start cd f opts w)
                @ concat (map (\<lambda>i.
                    if \<not> (\<not> overwrite opts
                          \<and> exists_before opts (files w) (outputs_of dn f opts) i)
                       \<and> \<not> dryRun opts
                    then [Clone (working_pipeline cd f opts),
                          Encode (fn (outputs_of dn f opts ! i)),
                          ToFile (outFile (outputs_of dn f opts ! i))]
                    else []) [0..<k])
                @ Clone (working_pipeline cd f opts) # Encode (fn (outputs_of dn f opts ! k))
                  # (if encode_error cd (working_pipeline cd f opts)
                          (fn (outputs_of dn f opts ! k)) = None
                     then [ToFile (outFile (outputs_of dn f opts ! k))] else [])"
    using k x[unfolded decided_status_Written write_calls_def] by (intro exI[of _ k]) simp
qed

theorem processImage_precedence_witness:
  "fst (processImage sample_codec ''/app'' ''/app/images/a.png''
          (parseArgs [''node'', ''index.mjs'', ''--dry-run'']) world_with_a_webp)
     = Inr [\<lparr>src = ''a.png'', out = ''a.webp'', res_fmt = ''webp'', status = SkippedExists\<rparr>,
            \<lparr>src = ''a.png'', out = ''a.jpg'', res_fmt = ''jpeg'', status = DryRun\<rparr>]
   \<and> calls (snd (processImage sample_codec ''/app'' ''/app/images/a.png''
          (parseArgs [''node'', ''index.mjs'', ''--dry-run'']) world_with_a_webp))
     = [Metadata (sharp ''/app/images/a.png'')]
   \<and> fst (processImage sample_codec ''/app'' ''/app/images/a.png''
          (parseArgs [''node'', ''index.mjs'', ''--overwrite'', ''--dry-run'']) world_with_a_webp)
     = Inr [\<lparr>src = ''a.png'', out = ''a.webp'', res_fmt = ''webp'', status = DryRun\<rparr>,
            \<lparr>src = ''a.png'', out = ''a.jpg'', res_fmt = ''jpeg'', status = DryRun\<rparr>]
   \<and> calls (snd (processImage sample_codec ''/app'' ''/app/images/a.png''
          (parseArgs [''node'', ''index.mjs'', ''--overwrite'', ''--dry-run'']) world_with_a_webp))
     = [Metadata (sharp ''/app/images/a.png'')]
   \<and> fst (processImage sample_codec ''/app'' ''/app/images/a.png''
          (parseArgs [''node'', ''index.mjs'']) world_with_a_webp)
     = Inr [\<lparr>src = ''a.png'', out = ''a.webp'', res_fmt = ''webp'', status = SkippedExists\<rparr>,
            \<lparr>src = ''a.png'', out = ''a.jpg'', res_fmt = ''jpeg'', status = Written\<rparr>]
   \<and> calls (snd (processImage sample_codec ''/app'' ''/app/images/a.png''
          (parseArgs [''node'', ''index.mjs'']) world_with_a_webp))
     = [Metadata (sharp ''/app/images/a.png''), Clone (sharp ''/app/images/a.png''),
             Encode (Jpeg (Fin 80) True), ToFile ''/app/images/formatted/a.jpg'']
   \<and> fst (processImage sample_codec ''/app'' ''/app/images/a.png''
          (parseArgs [''node'', ''index.mjs'', ''--quality=500'']) world_with_a_webp)
     = Inl (Error ''Expected integer between 1 and 100 for quality'')
   \<and> calls (snd (processImage sample_codec ''/app'' ''/app/images/a.png''
          (parseArgs [''node'', ''index.mjs'', ''--quality=500'']) world_with_a_webp))
     = [Metadata (sharp ''/app/images/a.png''), Clone (sharp ''/app/images/a.png''),
        Encode (Jpeg (Fin 500) True)]"
proof (intro conjI)
  let ?f = "''/app/images/a.png''"
  let ?W = world_with_a_webp
  {
    let ?O = "parseArgs [''node'', ''index.mjs'', ''--dry-run'']"
    note t = processImage_precedence[where cd = sample_codec and dn = "''/app''" and f = ?f
        and opts = ?O and w = ?W]
    have r: "reaches_fanout sample_codec ?f ?O" by code_simp
    have d: "dryRun ?O" by code_simp
    have "\<exists>rs w'. processImage sample_codec ''/app'' ?f ?O ?W = (Inr rs, w')"
      by (rule mp[OF conjunct1[OF conjunct2[OF t]]]) (intro conjI disjI1 r d)
    then obtain rs w' where p: "processImage sample_codec ''/app'' ?f ?O ?W = (Inr rs, w')"
      by (elim exE)
    note a = mp[OF spec[OF spec[OF conjunct1[OF t]]] p]
    have l: "length (outputs_of ''/app'' ?f ?O) = 2" by code_simp
    have i0: "0 < length (outputs_of ''/app'' ?f ?O)" by code_simp
    have i1: "1 < length (outputs_of ''/app'' ?f ?O)" by code_simp
    have lr: "length rs = 2" by (rule trans[OF conjunct1[OF a] l])
    note n = conjunct1[OF conjunct2[OF a]]
    have v0: "rs ! 0 = \<lparr>src = ''a.png'', out = ''a.webp'', res_fmt = ''webp'', status = SkippedExists\<rparr>"
      by (rule trans[OF conjunct1[OF mp[OF spec[OF n] i0]]]) code_simp
    have v1: "rs ! 1 = \<lparr>src = ''a.png'', out = ''a.jpg'', res_fmt = ''jpeg'', status = DryRun\<rparr>"
      by (rule trans[OF conjunct1[OF mp[OF spec[OF n] i1]]]) code_simp
    have v: "rs = [\<lparr>src = ''a.png'', out = ''a.webp'', res_fmt = ''webp'', status = SkippedExists\<rparr>,
            \<lparr>src = ''a.png'', out = ''a.jpg'', res_fmt = ''jpeg'', status = DryRun\<rparr>]"
      by (rule trans[OF list_of_two[OF lr]]) (simp only: v0 v1)
    have c: "calls w' = [Metadata (sharp ''/app/images/a.png'')]"
      by (rule trans[OF conjunct1[OF conjunct2[OF conjunct2[OF a]]]], unfold v) code_simp
    have "fst (processImage sample_codec ''/app'' ?f ?O ?W)
     = Inr [\<lparr>src = ''a.png'', out = ''a.webp'', res_fmt = ''webp'', status = SkippedExists\<rparr>,
            \<lparr>src = ''a.png'', out = ''a.jpg'', res_fmt = ''jpeg'', status = DryRun\<rparr>]"
      by (simp only: p fst_conv v)
    moreover have "calls (snd (processImage sample_codec ''/app'' ?f ?O ?W))
     = [Metadata (sharp ''/app/images/a.png'')]"
      by (simp only: p snd_conv c)
    ultimately have "fst (processImage sample_codec ''/app'' ?f ?O ?W)
     = Inr [\<lparr>src = ''a.png'', out = ''a.webp'', res_fmt = ''webp'', status = SkippedExists\<rparr>,
            \<lparr>src = ''a.png'', out = ''a.jpg'', res_fmt = ''jpeg'', status = DryRun\<rparr>]"
      and "calls (snd (processImage sample_codec ''/app'' ?f ?O ?W))
     = [Metadata (sharp ''/app/images/a.png'')]" by this+
  }
  note run = this
  from run(1) show "fst (processImage sample_codec ''/app'' ''/app/images/a.png''
          (parseArgs [''node'', ''index.mjs'', ''--dry-run'']) world_with_a_webp)
     = Inr [\<lparr>src = ''a.png'', out = ''a.webp'', res_fmt = ''webp'', status = SkippedExists\<rparr>,
            \<lparr>src = ''a.png'', out = ''a.jpg'', res_fmt = ''jpeg'', status = DryRun\<rparr>]" .
  from run(2) show "calls (snd (processImage sample_codec ''/app'' ''/app/images/a.png''
          (parseArgs [''node'', ''index.mjs'', ''--dry-run'']) world_with_a_webp))
     = [Metadata (sharp ''/app/images/a.png'')]" .
  {
    let ?O = "parseArgs [''node'', ''index.mjs'', ''--overwrite'', ''--dry-run'']"
    note t = processImage_precedence[where cd = sample_codec and dn = "''/app''" and f = ?f
        and opts = ?O and w = ?W]
    have r: "reaches_fanout sample_codec ?f ?O" by code_simp
    have d: "dryRun ?O" by code_simp
    have "\<exists>rs w'. processImage sample_codec ''/app'' ?f ?O ?W = (Inr rs, w')"
      by (rule mp[OF conjunct1[OF conjunct2[OF t]]]) (intro conjI disjI1 r d)
    then obtain rs w' where p: "processImage sample_codec ''/app'' ?f ?O ?W = (Inr rs, w')"
      by (elim exE)
    note a = mp[OF spec[OF spec[OF conjunct1[OF t]]] p]
    have l: "length (outputs_of ''/app'' ?f ?O) = 2" by code_simp
    have i0: "0 < length (outputs_of ''/app'' ?f ?O)" by code_simp
    have i1: "1 < length (outputs_of ''/app'' ?f ?O)" by code_simp
    have lr: "length rs = 2" by (rule trans[OF conjunct1[OF a] l])
    note n = conjunct1[OF conjunct2[OF a]]
    have v0: "rs ! 0 = \<lparr>src = ''a.png'', out = ''a.webp'', res_fmt = ''webp'', status = DryRun\<rparr>"
      by (rule trans[OF conjunct1[OF mp[OF spec[OF n] i0]]]) code_simp
    have v1: "rs ! 1 = \<lparr>src = ''a.png'', out = ''a.jpg'', res_fmt = ''jpeg'', status = DryRun\<rparr>"
      by (rule trans[OF conjunct1[OF mp[OF spec[OF n] i1]]]) code_simp
    have v: "rs = [\<lparr>src = ''a.png'', out = ''a.webp'', res_fmt = ''webp'', status = DryRun\<rparr>,
            \<lparr>src = ''a.png'', out = ''a.jpg'', res_fmt = ''jpeg'', status = DryRun\<rparr>]"
      by (rule trans[OF list_of_two[OF lr]]) (simp only: v0 v1)
    have c: "calls w' = [Metadata (sharp ''/app/images/a.png'')]"
      by (rule trans[OF conjunct1[OF conjunct2[OF conjunct2[OF a]]]], unfold v) code_simp
    have "fst (processImage sample_codec ''/app'' ?f ?O ?W)
     = Inr [\<lparr>src = ''a.png'', out = ''a.webp'', res_fmt = ''webp'', status = DryRun\<rparr>,
            \<lparr>src = ''a.png'', out = ''a.jpg'', res_fmt = ''jpeg'', status = DryRun\<rparr>]"
      by (simp only: p fst_conv v)
    moreover have "calls (snd (processImage sample_codec ''/app'' ?f ?O ?W))
     = [Metadata (sharp ''/app/images/a.png'')]"
      by (simp only: p snd_conv c)
    ultimately have "fst (processImage sample_codec ''/app'' ?f ?O ?W)
     = Inr [\<lparr>src = ''a.png'', out = ''a.webp'', res_fmt = ''webp'', status = DryRun\<rparr>,
            \<lparr>src = ''a.png'', out = ''a.jpg'', res_fmt = ''jpeg'', status = DryRun\<rparr>]"
      and "calls (snd (processImage sample_codec ''/app'' ?f ?O ?W))
     = [Metadata (sharp ''/app/images/a.png'')]" by this+
  }
  note run = this
  from run(1) show "fst (processImage sample_codec ''/app'' ''/app/images/a.png''
          (parseArgs [''node'', ''index.mjs'', ''--overwrite'', ''--dry-run'']) world_with_a_webp)
     = Inr [\<lparr>src = ''a.png'', out = ''a.webp'', res_fmt = ''webp'', status = DryRun\<rparr>,
            \<lparr>src = ''a.png'', out = ''a.jpg'', res_fmt = ''jpeg'', status = DryRun\<rparr>]" .
  from run(2) show "calls (snd (processImage sample_codec ''/app'' ''/app/images/a.png''
          (parseArgs [''node'', ''index.mjs'', ''--overwrite'', ''--dry-run'']) world_with_a_webp))
     = [Metadata (sharp ''/app/images/a.png'')]" .
  {
    let ?O = "parseArgs [''node'', ''index.mjs'']"
    note t = processImage_precedence[where cd = sample_codec and dn = "''/app''" and f = ?f
        and opts = ?O and w = ?W]
    have r: "reaches_fanout sample_codec ?f ?O" by code_simp
    have o: "outputs_of ''/app'' ?f ?O
               = [\<lparr>fmt = ''webp'', outFile = ''/app/images/formatted/a.webp'', fn = Webp (Fin 80) 4\<rparr>,
                  \<lparr>fmt = ''jpeg'', outFile = ''/app/images/formatted/a.jpg'', fn = Jpeg (Fin 80) True\<rparr>]"
      by code_simp
    have k: "working_pipeline sample_codec ?f ?O = sharp ?f" by code_simp
    have e0: "encode_error sample_codec (sharp ?f) (Webp (Fin 80) 4) = None" by code_simp
    have e1: "encode_error sample_codec (sharp ?f) (Jpeg (Fin 80) True) = None" by code_simp
    have tf: "\<And>present pl enc p. toFile sample_codec present pl enc p = Wrote (pl, enc)"
      by (simp add: sample_codec_def)
    have c: "\<forall>s\<in>set (outputs_of ''/app'' ?f ?O).
                 encode_error sample_codec (working_pipeline sample_codec ?f ?O) (fn s) = None
                 \<and> (\<forall>present. \<exists>d. toFile sample_codec present
                        (working_pipeline sample_codec ?f ?O) (fn s) (outFile s) = Wrote d)"
      unfolding o k by (simp add: e0 e1 tf)
    have "\<exists>rs w'. processImage sample_codec ''/app'' ?f ?O ?W = (Inr rs, w')"
      by (rule mp[OF conjunct1[OF conjunct2[OF t]]]) (intro conjI disjI2 r c)
    then obtain rs w' where p: "processImage sample_codec ''/app'' ?f ?O ?W = (Inr rs, w')"
      by (elim exE)
    note a = mp[OF spec[OF spec[OF conjunct1[OF t]]] p]
    have l: "length (outputs_of ''/app'' ?f ?O) = 2" by code_simp
    have i0: "0 < length (outputs_of ''/app'' ?f ?O)" by code_simp
    have i1: "1 < length (outputs_of ''/app'' ?f ?O)" by code_simp
    have lr: "length rs = 2" by (rule trans[OF conjunct1[OF a] l])
    note n = conjunct1[OF conjunct2[OF a]]
    have v0: "rs ! 0 = \<lparr>src = ''a.png'', out = ''a.webp'', res_fmt = ''webp'', status = SkippedExists\<rparr>"
      by (rule trans[OF conjunct1[OF mp[OF spec[OF n] i0]]]) code_simp
    have v1: "rs ! 1 = \<lparr>src = ''a.png'', out = ''a.jpg'', res_fmt = ''jpeg'', status = Written\<rparr>"
      by (rule trans[OF conjunct1[OF mp[OF spec[OF n] i1]]]) code_simp
    have v: "rs = [\<lparr>src = ''a.png'', out = ''a.webp'', res_fmt = ''webp'', status = SkippedExists\<rparr>,
            \<lparr>src = ''a.png'', out = ''a.jpg'', res_fmt = ''jpeg'', status = Written\<rparr>]"
      by (rule trans[OF list_of_two[OF lr]]) (simp only: v0 v1)
    have c: "calls w' = [Metadata (sharp ''/app/images/a.png''), Clone (sharp ''/app/images/a.png''),
             Encode (Jpeg (Fin 80) True), ToFile ''/app/images/formatted/a.jpg'']"
      by (rule trans[OF conjunct1[OF conjunct2[OF conjunct2[OF a]]]], unfold v) code_simp
    have "fst (processImage sample_codec ''/app'' ?f ?O ?W)
     = Inr [\<lparr>src = ''a.png'', out = ''a.webp'', res_fmt = ''webp'', status = SkippedExists\<rparr>,
            \<lparr>src = ''a.png'', out = ''a.jpg'', res_fmt = ''jpeg'', status = Written\<rparr>]"
      by (simp only: p fst_conv v)
    moreover have "calls (snd (processImage sample_codec ''/app'' ?f ?O ?W))
     = [Metadata (sharp ''/app/images/a.png''), Clone (sharp ''/app/images/a.png''),
             Encode (Jpeg (Fin 80) True), ToFile ''/app/images/formatted/a.jpg'']"
      by (simp only: p snd_conv c)
    ultimately have "fst (processImage sample_codec ''/app'' ?f ?O ?W)
     = Inr [\<lparr>src = ''a.png'', out = ''a.webp'', res_fmt = ''webp'', status = SkippedExists\<rparr>,
            \<lparr>src = ''a.png'', out = ''a.jpg'', res_fmt = ''jpeg'', status = Written\<rparr>]"
      and "calls (snd (processImage sample_codec ''/app'' ?f ?O ?W))
     = [Metadata (sharp ''/app/images/a.png''), Clone (sharp ''/app/images/a.png''),
             Encode (Jpeg (Fin 80) True), ToFile ''/app/images/formatted/a.jpg'']" by this+
  }
  note run = this
  from run(1) show "fst (processImage sample_codec ''/app'' ''/app/images/a.png''
          (parseArgs [''node'', ''index.mjs'']) world_with_a_webp)
     = Inr [\<lparr>src = ''a.png'', out = ''a.webp'', res_fmt = ''webp'', status = SkippedExists\<rparr>,
            \<lparr>src = ''a.png'', out = ''a.jpg'', res_fmt = ''jpeg'', status = Written\<rparr>]" .
  from run(2) show "calls (snd (processImage sample_codec ''/app'' ''/app/images/a.png''
          (parseArgs [''node'', ''index.mjs'']) world_with_a_webp))
     = [Metadata (sharp ''/app/images/a.png''), Clone (sharp ''/app/images/a.png''),
             Encode (Jpeg (Fin 80) True), ToFile ''/app/images/formatted/a.jpg'']" .
  {
    let ?O = "parseArgs [''node'', ''index.mjs'', ''--quality=500'']"
    let ?S = "outputs_of ''/app'' ?f ?O"
    let ?e = "Error ''Expected integer between 1 and 100 for quality''"
    note t = processImage_precedence[where cd = sample_codec and dn = "''/app''" and f = ?f
        and opts = ?O and w = ?W]
    have r: "reaches_fanout sample_codec ?f ?O" by code_simp
    have h: "fst (processImage sample_codec ''/app'' ?f ?O ?W) = Inl ?e" by code_simp
    have p: "processImage sample_codec ''/app'' ?f ?O ?W
               = (Inl ?e, snd (processImage sample_codec ''/app'' ?f ?O ?W))"
      by (rule prod_eqI) (simp_all only: fst_conv snd_conv h)
    have "\<exists>k<length ?S.
            \<not> (\<not> overwrite ?O \<and> exists_before ?O (files ?W) ?S k)
          \<and> \<not> dryRun ?O
          \<and> (encode_error sample_codec (working_pipeline sample_codec ?f ?O) (fn (?S ! k))
               = Some ?e
             \<or> encode_error sample_codec (working_pipeline sample_codec ?f ?O) (fn (?S ! k))
                 = None
               \<and> (\<exists>present x. toFile sample_codec present (working_pipeline sample_codec ?f ?O)
                      (fn (?S ! k)) (outFile (?S ! k))
                    = WriteFailed ?e x))
          \<and> calls (snd (processImage sample_codec ''/app'' ?f ?O ?W))
              = calls (fanout_start sample_codec ?f ?O ?W)
                @ concat (map (\<lambda>i.
                    if \<not> (\<not> overwrite ?O \<and> exists_before ?O (files ?W) ?S i)
                       \<and> \<not> dryRun ?O
                    then [Clone (working_pipeline sample_codec ?f ?O),
                          Encode (fn (?S ! i)),
                          ToFile (outFile (?S ! i))]
                    else []) [0..<k])
                @ Clone (working_pipeline sample_codec ?f ?O) # Encode (fn (?S ! k))
                  # (if encode_error sample_codec (working_pipeline sample_codec ?f ?O)
                          (fn (?S ! k)) = None
                     then [ToFile (outFile (?S ! k))] else [])"
      by (rule mp[OF spec[OF spec[OF conjunct2[OF conjunct2[OF t]]]]]) (intro conjI r p)
    then obtain k where k: "k < length ?S"
      and nk: "\<not> (\<not> overwrite ?O \<and> exists_before ?O (files ?W) ?S k)"
      and ck: "calls (snd (processImage sample_codec ''/app'' ?f ?O ?W))
              = calls (fanout_start sample_codec ?f ?O ?W)
                @ concat (map (\<lambda>i.
                    if \<not> (\<not> overwrite ?O \<and> exists_before ?O (files ?W) ?S i)
                       \<and> \<not> dryRun ?O
                    then [Clone (working_pipeline sample_codec ?f ?O),
                          Encode (fn (?S ! i)),
                          ToFile (outFile (?S ! i))]
                    else []) [0..<k])
                @ Clone (working_pipeline sample_codec ?f ?O) # Encode (fn (?S ! k))
                  # (if encode_error sample_codec (working_pipeline sample_codec ?f ?O)
                          (fn (?S ! k)) = None
                     then [ToFile (outFile (?S ! k))] else [])"
      by (elim exE conjE)
    have l: "length ?S = 2" by code_simp
    have s0: "\<not> overwrite ?O \<and> exists_before ?O (files ?W) ?S 0" by code_simp
    have "k \<noteq> 0"
    proof
      assume z: "k = 0"
      from nk[unfolded z] s0 show False by (rule notE)
    qed
    moreover have "k < 2" using k by (simp only: l)
    ultimately have k1: "k = 1" by arith
    have "calls (snd (processImage sample_codec ''/app'' ?f ?O ?W))
     = [Metadata (sharp ''/app/images/a.png''), Clone (sharp ''/app/images/a.png''),
        Encode (Jpeg (Fin 500) True)]"
      by (rule trans[OF ck], unfold k1) code_simp
    note h this
  }
  note run = this
  from run(1) show "fst (processImage sample_codec ''/app'' ''/app/images/a.png''
          (parseArgs [''node'', ''index.mjs'', ''--quality=500'']) world_with_a_webp)
     = Inl (Error ''Expected integer between 1 and 100 for quality'')" .
  from run(2) show "calls (snd (processImage sample_codec ''/app'' ''/app/images/a.png''
          (parseArgs [''node'', ''index.mjs'', ''--quality=500'']) world_with_a_webp))
     = [Metadata (sharp ''/app/images/a.png''), Clone (sharp ''/app/images/a.png''),
        Encode (Jpeg (Fin 500) True)]" .
qed

section \<open>The results of format fan-out\<close>

text \<open>
  Claim C7, as amended. Let a source file reach format fan-out, with \<open>N\<close> valid tokens
  (\<^verbatim>\<open>webp\<close>, \<^verbatim>\<open>jpeg\<close>, \<^verbatim>\<open>jpg\<close>, \<^verbatim>\<open>png\<close>) among the requested ones. Every other
  token puts one warning on stderr, in request order, and nothing else is written there.
  When \<^verbatim>\<open>processImage\<close> returns, it returns exactly \<open>N\<close> results, one per valid token
  in request order, each with the normalized format, the output name made of the base
  name and the format's extension, and the source's name. It returns whenever, for each
  OutputSpec of the file that is neither skipped as existing nor a dry run, the encoder
  accepts its settings and the write succeeds. When, for some such OutputSpec, the encoder
  rejects its settings or the write cannot succeed, it raises instead and the file has no
  result at all.
\<close>

theorem fanout_results:
  "(reaches_fanout cd f opts \<longrightarrow>
      stderr (snd (processImage cd dn f opts w))
        = stderr w @ map unsupported_warning
                       (filter (\<lambda>t. \<not> spec_valid_token t) (formats opts)))
   \<and> (\<forall>rs w'. processImage cd dn f opts w = (Inr rs, w') \<longrightarrow>
        reaches_fanout cd f opts
        \<and> length rs = length (filter spec_valid_token (formats opts))
        \<and> map res_fmt rs = map spec_normalized (filter spec_valid_token (formats opts))
        \<and> map out rs
            = map (\<lambda>t. path_basename_ext f (path_extname f) @ ''.''
                        @ spec_extension (spec_normalized t))
                (filter spec_valid_token (formats opts))
        \<and> (\<forall>r\<in>set rs. src r = path_basename f))
   \<and> (reaches_fanout cd f opts
        \<and> (\<forall>i<length (outputs_of dn f opts).
              \<not> (\<not> overwrite opts \<and> exists_before opts (files w) (outputs_of dn f opts) i)
              \<and> \<not> dryRun opts
              \<longrightarrow> encode_error cd (working_pipeline cd f opts) (fn (outputs_of dn f opts ! i))
                    = None
                  \<and> (\<forall>present. \<exists>d. toFile cd present (working_pipeline cd f opts)
                         (fn (outputs_of dn f opts ! i)) (outFile (outputs_of dn f opts ! i))
                       = Wrote d))
        \<longrightarrow> (\<exists>rs w'. processImage cd dn f opts w = (Inr rs, w')))
   \<and> (reaches_fanout cd f opts
        \<and> (\<exists>i<length (outputs_of dn f opts).
              \<not> (\<not> overwrite opts \<and> exists_before opts (files w) (outputs_of dn f opts) i)
              \<and> \<not> dryRun opts
              \<and> (encode_error cd (working_pipeline cd f opts) (fn (outputs_of dn f opts ! i))
                    \<noteq> None
                  \<or> (\<forall>present d. toFile cd present (working_pipeline cd f opts)
                         (fn (outputs_of dn f opts ! i)) (outFile (outputs_of dn f opts ! i))
                       \<noteq> Wrote d)))
        \<longrightarrow> (\<exists>err w'. processImage cd dn f opts w = (Inl err, w')))"
proof (intro conjI impI allI)
  assume fo: "reaches_fanout cd f opts"
  from processImage_fanout[OF fo, of w dn] obtain work w3 where
    h: "stderr w3 = stderr w @ map unsupported_warning
                                 (filter (\<lambda>t. \<not> spec_valid_token t) (formats opts))"
    "processImage cd dn f opts w
       = emit_results cd opts (path_basename f) work (outputs_of dn f opts) [] w3"
    by blast
  show "stderr (snd (processImage cd dn f opts w))
          = stderr w @ map unsupported_warning
                         (filter (\<lambda>t. \<not> spec_valid_token t) (formats opts))"
    using h emit_results_stderr[of cd opts "path_basename f" work "outputs_of dn f opts" "[]" w3]
    by simp
next
  fix rs w'
  assume p: "processImage cd dn f opts w = (Inr rs, w')"
  let ?n = "path_basename_ext f (path_extname f)"
  let ?ts = "filter spec_valid_token (formats opts)"
  show fo: "reaches_fanout cd f opts" by (rule processImage_Inr_fanout[OF p])
  from processImage_fanout[OF fo, of w dn] p obtain work w3 where
    "emit_results cd opts (path_basename f) work (outputs_of dn f opts) [] w3 = (Inr rs, w')"
    by auto
  from emit_results_Inr[OF this] obtain sts where
    sts: "length sts = length (outputs_of dn f opts)"
    "rs = map2 (result_of (path_basename f)) (outputs_of dn f opts) sts" by auto
  have len: "length sts = length ?ts" using sts(1) by (simp add: outputs_of_def)
  have rs: "rs = map2 (\<lambda>t st. result_of (path_basename f) (spec_output dn ?n opts t) st) ?ts sts"
    using sts(2) by (simp add: outputs_of_def zip_map1 case_prod_unfold)
  show "length rs = length ?ts" using rs len by simp
  have nth: "\<And>i. i < length ?ts \<Longrightarrow>
      rs ! i = result_of (path_basename f) (spec_output dn ?n opts (?ts ! i)) (sts ! i)"
    using rs len by simp
  have valid: "\<And>i. i < length ?ts \<Longrightarrow> spec_valid_token (?ts ! i)"
    using nth_mem[of _ ?ts] by fastforce
  show "map res_fmt rs = map spec_normalized ?ts"
    using len rs by (intro nth_equalityI) (simp_all add: result_of_def spec_output_def)
  show "map out rs = map (\<lambda>t. ?n @ ''.'' @ spec_extension (spec_normalized t)) ?ts"
    using len rs valid
    by (intro nth_equalityI) (simp_all add: result_of_def spec_output_out)
  show "\<forall>r\<in>set rs. src r = path_basename f"
    using rs by (auto simp: result_of_def dest!: set_zip_leftD split: prod.splits) 
next
  assume a: "reaches_fanout cd f opts
        \<and> (\<forall>i<length (outputs_of dn f opts).
              \<not> (\<not> overwrite opts \<and> exists_before opts (files w) (outputs_of dn f opts) i)
              \<and> \<not> dryRun opts
              \<longrightarrow> encode_error cd (working_pipeline cd f opts) (fn (outputs_of dn f opts ! i))
                    = None
                  \<and> (\<forall>present. \<exists>d. toFile cd present (working_pipeline cd f opts)
                         (fn (outputs_of dn f opts ! i)) (outFile (outputs_of dn f opts ! i))
                       = Wrote d))"
  obtain x w' where p: "processImage cd dn f opts w = (x, w')"
    by (cases "processImage cd dn f opts w")
  show "\<exists>rs w'. processImage cd dn f opts w = (Inr rs, w')"
  proof (cases x)
    case (Inr rs)
    with p show ?thesis by blast
  next
    case (Inl err)
    from processImage_Inl_exact[OF p[unfolded Inl] conjunct1[OF a],
        unfolded decided_status_Written]
    obtain k where k: "k < length (outputs_of dn f opts)"
      and n: "\<not> (\<not> overwrite opts \<and> exists_before opts (files w) (outputs_of dn f opts) k)
              \<and> \<not> dryRun opts"
      and e: "encode_error cd (working_pipeline cd f opts) (fn (outputs_of dn f opts ! k)) = Some err
            \<or> encode_error cd (working_pipeline cd f opts) (fn (outputs_of dn f opts ! k)) = None
              \<and> (\<exists>present x. toFile cd present (working_pipeline cd f opts)
                    (fn (outputs_of dn f opts ! k)) (outFile (outputs_of dn f opts ! k))
                                  = WriteFailed err x)"
      by blast
    from a k n have ok: "encode_error cd (working_pipeline cd f opts) (fn (outputs_of dn f opts ! k))
                    = None"
      and wr: "\<forall>present. \<exists>d. toFile cd present (working_pipeline cd f opts)
                         (fn (outputs_of dn f opts ! k)) (outFile (outputs_of dn f opts ! k))
                       = Wrote d" by blast+
    from e ok obtain present x where "toFile cd present (working_pipeline cd f opts)
                    (fn (outputs_of dn f opts ! k)) (outFile (outputs_of dn f opts ! k))
                                  = WriteFailed err x" by auto
    with wr[rule_format, of present] show ?thesis by auto
  qed
next
  assume a: "reaches_fanout cd f opts
        \<and> (\<exists>i<length (outputs_of dn f opts).
              \<not> (\<not> overwrite opts \<and> exists_before opts (files w) (outputs_of dn f opts) i)
              \<and> \<not> dryRun opts
              \<and> (encode_error cd (working_pipeline cd f opts) (fn (outputs_of dn f opts ! i))
                    \<noteq> None
                  \<or> (\<forall>present d. toFile cd present (working_pipeline cd f opts)
                         (fn (outputs_of dn f opts ! i)) (outFile (outputs_of dn f opts ! i))
                       \<noteq> Wrote d)))"
  then obtain i where i: "i < length (outputs_of dn f opts)"
    and n: "\<not> (\<not> overwrite opts \<and> exists_before opts (files w) (outputs_of dn f opts) i)
              \<and> \<not> dryRun opts"
    and b: "encode_error cd (working_pipeline cd f opts) (fn (outputs_of dn f opts ! i)) \<noteq> None
                  \<or> (\<forall>present d. toFile cd present (working_pipeline cd f opts)
                         (fn (outputs_of dn f opts ! i)) (outFile (outputs_of dn f opts ! i))
                       \<noteq> Wrote d)" by blast
  obtain x w' where p: "processImage cd dn f opts w = (x, w')"
    by (cases "processImage cd dn f opts w")
  show "\<exists>err w'. processImage cd dn f opts w = (Inl err, w')"
  proof (cases x)
    case (Inl err)
    with p show ?thesis by blast
  next
    case (Inr rs)
    note x = processImage_Inr_exact(4)[OF p[unfolded Inr], unfolded decided_status_Written,
        rule_format, OF i n]
    from b x have False by auto
    then show ?thesis ..
  qed
qed

theorem fanout_results_witness:
  "(\<exists>rs w'. processImage sample_codec ''/app'' ''/app/images/a.png''
               (parseArgs [''node'', ''index.mjs'', ''--formats=jpg,JPEG,bmp,png''])
               empty_world = (Inr rs, w')
     \<and> length rs = 3
     \<and> map res_fmt rs = [''jpeg'', ''jpeg'', ''png'']
     \<and> map out rs = [''a.jpg'', ''a.jpg'', ''a.png'']
     \<and> (\<forall>r\<in>set rs. src r = ''a.png'')
     \<and> stderr w' = [ [Text ''Skipping unsupported output format: bmp''] ])
   \<and> (\<exists>err w'. processImage sample_codec ''/app'' ''/app/images/a.png''
               (parseArgs [''node'', ''index.mjs'', ''--formats=jpg,JPEG,bmp,png'',
                           ''--quality=500''])
               empty_world = (Inl err, w'))"
proof (rule conjI)
  let ?O = "parseArgs [''node'', ''index.mjs'', ''--formats=jpg,JPEG,bmp,png'']"
  let ?f = "''/app/images/a.png''"
  let ?S = "outputs_of ''/app'' ?f ?O"
  have O: "formats ?O = [''jpg'', ''jpeg'', ''bmp'', ''png'']" by code_simp
  have fo: "reaches_fanout sample_codec ?f ?O" by code_simp
  have n: "path_basename_ext ?f (path_extname ?f) = ''a''" by code_simp
  have b: "path_basename ?f = ''a.png''" by code_simp
  have v: "filter spec_valid_token (formats ?O) = [''jpg'', ''jpeg'', ''png'']"
    unfolding O by (simp add: spec_valid_token_def)
  have u: "filter (\<lambda>t. \<not> spec_valid_token t) (formats ?O) = [''bmp'']"
    unfolding O by (simp add: spec_valid_token_def)
  have o: "?S = [\<lparr>fmt = ''jpeg'', outFile = ''/app/images/formatted/a.jpg'', fn = Jpeg (Fin 80) True\<rparr>,
                 \<lparr>fmt = ''jpeg'', outFile = ''/app/images/formatted/a.jpg'', fn = Jpeg (Fin 80) True\<rparr>,
                 \<lparr>fmt = ''png'', outFile = ''/app/images/formatted/a.png'', fn = Png (Fin 80)\<rparr>]"
    by code_simp
  have k: "working_pipeline sample_codec ?f ?O = sharp ?f" by code_simp
  have e0: "encode_error sample_codec (sharp ?f) (Jpeg (Fin 80) True) = None" by code_simp
  have e1: "encode_error sample_codec (sharp ?f) (Png (Fin 80)) = None" by code_simp
  have tf: "\<And>present pl enc p. toFile sample_codec present pl enc p = Wrote (pl, enc)"
    by (simp add: sample_codec_def)
  have c: "\<forall>s\<in>set ?S.
             encode_error sample_codec (working_pipeline sample_codec ?f ?O) (fn s) = None
             \<and> (\<forall>present. \<exists>d. toFile sample_codec present
                    (working_pipeline sample_codec ?f ?O) (fn s) (outFile s) = Wrote d)"
    unfolding o k by (simp add: e0 e1 tf)
  have hyp: "\<forall>i<length ?S.
              \<not> (\<not> overwrite ?O \<and> exists_before ?O (files empty_world) ?S i)
              \<and> \<not> dryRun ?O
              \<longrightarrow> encode_error sample_codec (working_pipeline sample_codec ?f ?O) (fn (?S ! i))
                    = None
                  \<and> (\<forall>present. \<exists>d. toFile sample_codec present
                         (working_pipeline sample_codec ?f ?O)
                         (fn (?S ! i)) (outFile (?S ! i))
                       = Wrote d)"
  proof (intro allI impI)
    fix i assume i: "i < length ?S"
    show "encode_error sample_codec (working_pipeline sample_codec ?f ?O) (fn (?S ! i))
                    = None
                  \<and> (\<forall>present. \<exists>d. toFile sample_codec present
                         (working_pipeline sample_codec ?f ?O)
                         (fn (?S ! i)) (outFile (?S ! i))
                       = Wrote d)"
      by (rule bspec[OF c nth_mem[OF i]])
  qed
  note t = fanout_results[where cd = sample_codec and f = ?f and opts = ?O and dn = "''/app''"
      and w = empty_world]
  have "\<exists>rs w'. processImage sample_codec ''/app'' ?f ?O empty_world = (Inr rs, w')"
    by (rule mp[OF conjunct1[OF conjunct2[OF conjunct2[OF t]]]]) (intro conjI fo hyp)
  then obtain rs w' where
    p: "processImage sample_codec ''/app'' ?f ?O empty_world = (Inr rs, w')" by (elim exE)
  note a = mp[OF spec[OF spec[OF conjunct1[OF conjunct2[OF t]]]] p]
  have l: "length rs = length (filter spec_valid_token (formats ?O))"
    by (rule conjunct1[OF conjunct2[OF a]])
  have f: "map res_fmt rs = map spec_normalized (filter spec_valid_token (formats ?O))"
    by (rule conjunct1[OF conjunct2[OF conjunct2[OF a]]])
  have ou: "map out rs
            = map (\<lambda>t. path_basename_ext ?f (path_extname ?f) @ ''.''
                        @ spec_extension (spec_normalized t))
                (filter spec_valid_token (formats ?O))"
    by (rule conjunct1[OF conjunct2[OF conjunct2[OF conjunct2[OF a]]]])
  have s: "\<forall>r\<in>set rs. src r = path_basename ?f"
    by (rule conjunct2[OF conjunct2[OF conjunct2[OF conjunct2[OF a]]]])
  have e: "stderr (snd (processImage sample_codec ''/app'' ?f ?O empty_world))
        = stderr empty_world @ map unsupported_warning
                       (filter (\<lambda>t. \<not> spec_valid_token t) (formats ?O))"
    by (rule mp[OF conjunct1[OF t] fo])
  have l': "length rs = 3" using l unfolding v by simp
  have f': "map res_fmt rs = [''jpeg'', ''jpeg'', ''png'']"
    using f unfolding v by (simp add: spec_normalized_def)
  have o': "map out rs = [''a.jpg'', ''a.jpg'', ''a.png'']"
    using ou unfolding v n by (simp add: spec_normalized_def spec_extension_def)
  have s': "\<forall>r\<in>set rs. src r = ''a.png''" using s unfolding b .
  have e': "stderr w' = [ [Text ''Skipping unsupported output format: bmp''] ]"
    using e unfolding u p by (simp add: empty_world_def unsupported_warning_def)
  show "\<exists>rs w'. processImage sample_codec ''/app'' ?f ?O empty_world = (Inr rs, w')
     \<and> length rs = 3
     \<and> map res_fmt rs = [''jpeg'', ''jpeg'', ''png'']
     \<and> map out rs = [''a.jpg'', ''a.jpg'', ''a.png'']
     \<and> (\<forall>r\<in>set rs. src r = ''a.png'')
     \<and> stderr w' = [ [Text ''Skipping unsupported output format: bmp''] ]"
    by (rule exI[of _ rs], rule exI[of _ w'], intro conjI) (rule p l' f' o' s' e')+
next
  let ?O = "parseArgs [''node'', ''index.mjs'', ''--formats=jpg,JPEG,bmp,png'', ''--quality=500'']"
  let ?f = "''/app/images/a.png''"
  let ?S = "outputs_of ''/app'' ?f ?O"
  have fo: "reaches_fanout sample_codec ?f ?O" by code_simp
  have i0: "0 < length ?S" by code_simp
  have na: "\<not> (\<not> overwrite ?O \<and> exists_before ?O (files empty_world) ?S 0)" by code_simp
  have nb: "\<not> dryRun ?O" by code_simp
  have ne: "encode_error sample_codec (working_pipeline sample_codec ?f ?O) (fn (?S ! 0)) \<noteq> None"
    by code_simp
  note t = fanout_results[where cd = sample_codec and f = ?f and opts = ?O and dn = "''/app''"
      and w = empty_world]
  show "\<exists>err w'. processImage sample_codec ''/app'' ?f ?O empty_world = (Inl err, w')"
    by (rule mp[OF conjunct2[OF conjunct2[OF conjunct2[OF t]]]])
      (intro conjI fo, rule exI[of _ 0], intro conjI i0 na nb disjI1 ne)
qed

text \<open>
  The claim as stated fails where an encoder rejects its options: with
  \<^verbatim>\<open>--quality=500\<close> the file \<^verbatim>\<open>a.png\<close> reaches format fan-out with two valid
  tokens, and \<^verbatim>\<open>processImage\<close> raises at the first encoder, so no result is produced.
\<close>

theorem fanout_count_counterexample:
  "reaches_fanout sample_codec ''/app/images/a.png''
      (parseArgs [''node'', ''index.mjs'', ''--quality=500''])
   \<and> filter spec_valid_token (formats (parseArgs [''node'', ''index.mjs'', ''--quality=500'']))
       = [''webp'', ''jpeg'']
   \<and> fst (processImage sample_codec ''/app'' ''/app/images/a.png''
            (parseArgs [''node'', ''index.mjs'', ''--quality=500'']) empty_world)
       = Inl (Error ''Expected integer between 1 and 100 for quality'')"
  by code_simp

section \<open>The resize decision\<close>

lemma resize_requests_append:
  "resize_requests (xs @ ys) = resize_requests xs @ resize_requests ys"
  by (induction xs rule: resize_requests.induct) simp_all

lemma emit_one_clones:
  "\<exists>rest. calls (snd (emit_one cd opts b work spec w)) = calls w @ rest
          \<and> resize_requests rest = [] \<and> (\<forall>pl. Clone pl \<in> set rest \<longrightarrow> pl = work)"
  by (simp add: emit_one_def Let_def split: option.splits write_result.splits)

lemma emit_results_clones:
  "\<exists>rest. calls (snd (emit_results cd opts b work specs acc w)) = calls w @ rest
          \<and> resize_requests rest = [] \<and> (\<forall>pl. Clone pl \<in> set rest \<longrightarrow> pl = work)"
proof (induction specs arbitrary: acc w)
  case Nil
  show ?case by simp
next
  case (Cons spec specs)
  obtain x w1 where e: "emit_one cd opts b work spec w = (x, w1)"
    by (cases "emit_one cd opts b work spec w")
  from emit_one_clones[of cd opts b work spec w] e obtain r1 where
    r1: "calls w1 = calls w @ r1" "resize_requests r1 = []"
      "\<forall>pl. Clone pl \<in> set r1 \<longrightarrow> pl = work" by auto
  show ?case
  proof (cases x)
    case (Inl err)
    then show ?thesis using e r1 by simp
  next
    case (Inr r)
    from Cons.IH[of "acc @ [r]" w1] obtain r2 where
      r2: "calls (snd (emit_results cd opts b work specs (acc @ [r]) w1)) = calls w1 @ r2"
      "resize_requests r2 = []" "\<forall>pl. Clone pl \<in> set r2 \<longrightarrow> pl = work" by blast
    have "calls (snd (emit_results cd opts b work (spec # specs) acc w)) = calls w @ (r1 @ r2)"
      using e Inr r1 r2 by simp
    moreover have "resize_requests (r1 @ r2) = []" using r1 r2 by (simp add: resize_requests_append)
    moreover have "\<forall>pl. Clone pl \<in> set (r1 @ r2) \<longrightarrow> pl = work" using r1 r2 by auto
    ultimately show ?thesis by blast
  qed
qed

lemma working_pipeline_meta:
  "read_metadata cd (sharp f) = Inr m
     \<Longrightarrow> working_pipeline cd f opts
         = (if shouldResize m opts
            then (sharp f)\<lparr>resized := Some \<lparr>rs_width = maxWidth opts,
                                           rs_withoutEnlargement = True, rs_fit = ''inside''\<rparr>\<rparr>
            else sharp f)"
  by (simp add: working_pipeline_def)

lemma processImage_clones:
  assumes "read_metadata cd (sharp f) = Inr m"
  shows "\<exists>rest. calls (snd (processImage cd dn f opts w)) = calls w @ Metadata (sharp f) # rest
           \<and> resize_requests rest =
               (if shouldResize m opts
                then [\<lparr>rs_width = maxWidth opts, rs_withoutEnlargement = True, rs_fit = ''inside''\<rparr>]
                else [])
           \<and> (\<forall>pl. Clone pl \<in> set rest \<longrightarrow> pl = working_pipeline cd f opts)"
proof -
  let ?ro = "\<lparr>rs_width = maxWidth opts, rs_withoutEnlargement = True, rs_fit = ''inside''\<rparr>"
  let ?w1 = "w\<lparr>calls := calls w @ [Metadata (sharp f)]\<rparr>"
  let ?pre = "if shouldResize m opts then [Resize ?ro] else []"
  obtain x w2 where r: "resize_step cd m opts (sharp f) ?w1 = (x, w2)"
    by (cases "resize_step cd m opts (sharp f) ?w1")
  have c2: "calls w2 = calls w @ Metadata (sharp f) # ?pre"
    using r by (auto simp: resize_step_def Let_def split: if_splits option.splits)
  have pre: "resize_requests ?pre = (if shouldResize m opts then [?ro] else [])"
    "\<forall>pl. Clone pl \<notin> set ?pre" by simp_all
  show ?thesis
  proof (cases x)
    case (Inl err)
    have "processImage cd dn f opts w = (Inl err, w2)"
      using assms r Inl by (simp add: processImage_def Let_def)
    then have "calls (snd (processImage cd dn f opts w)) = calls w @ Metadata (sharp f) # ?pre"
      using c2 by simp
    with pre show ?thesis by blast
  next
    case (Inr work)
    have wk: "work = working_pipeline cd f opts"
      using r Inr assms
      by (auto simp: working_pipeline_def resize_step_def Let_def split: if_splits option.splits)
    let ?w3 = "snd (build_outputs dn (path_basename_ext f (path_extname f)) opts (formats opts) [] w2)"
    let ?outs = "fst (build_outputs dn (path_basename_ext f (path_extname f)) opts (formats opts) [] w2)"
    have c3: "calls ?w3 = calls w2" by (simp add: build_outputs_eq)
    have p: "processImage cd dn f opts w = emit_results cd opts (path_basename f) work ?outs [] ?w3"
      using assms r Inr by (simp add: processImage_def Let_def split: prod.splits)
    from emit_results_clones[of cd opts "path_basename f" work ?outs "[]" ?w3] obtain rest where
      rest: "calls (snd (emit_results cd opts (path_basename f) work ?outs [] ?w3)) = calls ?w3 @ rest"
      "resize_requests rest = []" "\<forall>pl. Clone pl \<in> set rest \<longrightarrow> pl = work" by blast
    have "calls (snd (processImage cd dn f opts w))
            = calls w @ Metadata (sharp f) # (?pre @ rest)"
      using p rest c3 c2 by simp
    moreover have "resize_requests (?pre @ rest) = (if shouldResize m opts then [?ro] else [])"
      using rest by (simp add: resize_requests_append)
    moreover have "\<forall>pl. Clone pl \<in> set (?pre @ rest) \<longrightarrow> pl = working_pipeline cd f opts"
      using rest(3) wk by auto
    ultimately show ?thesis by blast
  qed
qed

lemma processImage_provenance:
  assumes "files (snd (processImage cd dn f opts w)) p = Some d" and "files w p \<noteq> Some d"
  shows "\<exists>s\<in>set (outputs_of dn f opts). outFile s = p
           \<and> (\<exists>present. toFile cd present (working_pipeline cd f opts) (fn s) p = Wrote d
                  \<or> (\<exists>e. toFile cd present (working_pipeline cd f opts) (fn s) p
                          = WriteFailed e (Some d)))"
proof (cases "reaches_fanout cd f opts")
  case True
  note p = processImage_reaches[OF True, of dn w]
  have a: "files (snd (emit_results cd opts (path_basename f) (working_pipeline cd f opts)
               (outputs_of dn f opts) [] (fanout_start cd f opts w))) p = Some d"
    using assms(1) unfolding p .
  have b: "files (fanout_start cd f opts w) p \<noteq> Some d" using assms(2) by simp
  show ?thesis by (rule emit_results_provenance[OF a b])
next
  case False
  from processImage_no_fanout[OF False, of dn w] assms show ?thesis by auto
qed

text \<open>
  Claim C4. For every source file whose metadata can be read and every Configuration,
  \<^verbatim>\<open>processImage\<close> requests a resize if and only if the metadata width is a known
  positive number and exceeds \<^verbatim>\<open>maxWidth\<close>; the request, when made, is the only one,
  comes right after the metadata is read, and asks for width \<^verbatim>\<open>maxWidth\<close>, fit inside,
  without enlargement. Every pipeline that \<^verbatim>\<open>processImage\<close> clones for an encoder is
  the source's pipeline with that resize request when the condition holds, and without
  any when it does not; and every datum that \<^verbatim>\<open>processImage\<close> puts into a file was
  written by \<^verbatim>\<open>toFile\<close> from that pipeline, for an OutputSpec of the file. The code
  tests that the width is a number and exceeds \<^verbatim>\<open>maxWidth\<close>; a width that is known is
  the width of an image and so positive (\<^const>\<open>width_plausible\<close>).
\<close>

theorem resize_decision:
  assumes "read_metadata cd (sharp f) = Inr m" and "width_plausible m"
  shows "(shouldResize m opts \<longleftrightarrow>
            (\<exists>wd. width m = Some wd \<and> js_gt wd (Fin 0) \<and> js_gt wd (maxWidth opts)))
       \<and> (\<exists>rest. calls (snd (processImage cd dn f opts w)) = calls w @ Metadata (sharp f) # rest
             \<and> resize_requests rest =
                 (if \<exists>wd. width m = Some wd \<and> js_gt wd (Fin 0) \<and> js_gt wd (maxWidth opts)
                  then [\<lparr>rs_width = maxWidth opts, rs_withoutEnlargement = True,
                         rs_fit = ''inside''\<rparr>]
                  else [])
             \<and> (\<forall>pl. Clone pl \<in> set rest \<longrightarrow>
                   pl = (if \<exists>wd. width m = Some wd \<and> js_gt wd (Fin 0)
                                 \<and> js_gt wd (maxWidth opts)
                         then (sharp f)\<lparr>resized :=
                                Some \<lparr>rs_width = maxWidth opts, rs_withoutEnlargement = True,
                                      rs_fit = ''inside''\<rparr>\<rparr>
                         else sharp f)))
       \<and> (\<forall>p d. files (snd (processImage cd dn f opts w)) p = Some d \<and> files w p \<noteq> Some d
             \<longrightarrow> (\<exists>s\<in>set (outputs_of dn f opts). outFile s = p
                   \<and> (\<exists>present.
                        toFile cd present
                          (if \<exists>wd. width m = Some wd \<and> js_gt wd (Fin 0)
                                  \<and> js_gt wd (maxWidth opts)
                           then (sharp f)\<lparr>resized :=
                                  Some \<lparr>rs_width = maxWidth opts, rs_withoutEnlargement = True,
                                        rs_fit = ''inside''\<rparr>\<rparr>
                           else sharp f) (fn s) p = Wrote d
                      \<or> (\<exists>e. toFile cd present
                          (if \<exists>wd. width m = Some wd \<and> js_gt wd (Fin 0)
                                  \<and> js_gt wd (maxWidth opts)
                           then (sharp f)\<lparr>resized :=
                                  Some \<lparr>rs_width = maxWidth opts, rs_withoutEnlargement = True,
                                        rs_fit = ''inside''\<rparr>\<rparr>
                           else sharp f) (fn s) p = WriteFailed e (Some d)))))"
proof -
  have iff: "shouldResize m opts \<longleftrightarrow>
            (\<exists>wd. width m = Some wd \<and> js_gt wd (Fin 0) \<and> js_gt wd (maxWidth opts))"
    using assms(2) by (auto simp: shouldResize_def width_plausible_def split: option.splits)
  note wk = working_pipeline_meta[OF assms(1), of opts]
  have B: "\<exists>rest. calls (snd (processImage cd dn f opts w)) = calls w @ Metadata (sharp f) # rest
           \<and> resize_requests rest =
               (if shouldResize m opts
                then [\<lparr>rs_width = maxWidth opts, rs_withoutEnlargement = True, rs_fit = ''inside''\<rparr>]
                else [])
           \<and> (\<forall>pl. Clone pl \<in> set rest \<longrightarrow> pl =
                (if shouldResize m opts
            then (sharp f)\<lparr>resized := Some \<lparr>rs_width = maxWidth opts,
                                           rs_withoutEnlargement = True, rs_fit = ''inside''\<rparr>\<rparr>
            else sharp f))"
    using processImage_clones[OF assms(1), of dn opts w] unfolding wk .
  have C: "\<forall>p d. files (snd (processImage cd dn f opts w)) p = Some d \<and> files w p \<noteq> Some d
             \<longrightarrow> (\<exists>s\<in>set (outputs_of dn f opts). outFile s = p
                   \<and> (\<exists>present.
                        toFile cd present
                          (if shouldResize m opts
                           then (sharp f)\<lparr>resized :=
                                  Some \<lparr>rs_width = maxWidth opts, rs_withoutEnlargement = True,
                                        rs_fit = ''inside''\<rparr>\<rparr>
                           else sharp f) (fn s) p = Wrote d
                      \<or> (\<exists>e. toFile cd present
                          (if shouldResize m opts
                           then (sharp f)\<lparr>resized :=
                                  Some \<lparr>rs_width = maxWidth opts, rs_withoutEnlargement = True,
                                        rs_fit = ''inside''\<rparr>\<rparr>
                           else sharp f) (fn s) p = WriteFailed e (Some d))))"
  proof (intro allI impI)
    fix p d
    assume a: "files (snd (processImage cd dn f opts w)) p = Some d \<and> files w p \<noteq> Some d"
    show "\<exists>s\<in>set (outputs_of dn f opts). outFile s = p
                   \<and> (\<exists>present.
                        toFile cd present
                          (if shouldResize m opts
                           then (sharp f)\<lparr>resized :=
                                  Some \<lparr>rs_width = maxWidth opts, rs_withoutEnlargement = True,
                                        rs_fit = ''inside''\<rparr>\<rparr>
                           else sharp f) (fn s) p = Wrote d
                      \<or> (\<exists>e. toFile cd present
                          (if shouldResize m opts
                           then (sharp f)\<lparr>resized :=
                                  Some \<lparr>rs_width = maxWidth opts, rs_withoutEnlargement = True,
                                        rs_fit = ''inside''\<rparr>\<rparr>
                           else sharp f) (fn s) p = WriteFailed e (Some d)))"
      using processImage_provenance[OF conjunct1[OF a] conjunct2[OF a]] unfolding wk .
  qed
  show ?thesis using B C unfolding iff by (intro conjI) (rule refl | assumption)+
qed

theorem resize_decision_witness:
  "shouldResize \<lparr>width = Some (Fin 2000)\<rparr> default_opts
   \<and> \<not> shouldResize \<lparr>width = Some (Fin 800)\<rparr> default_opts
   \<and> resize_requests (calls (snd (processImage sample_codec ''/app'' ''/app/images/b.jpg''
         default_opts empty_world)))
       = [\<lparr>rs_width = Fin 1600, rs_withoutEnlargement = True, rs_fit = ''inside''\<rparr>]
   \<and> resize_requests (calls (snd (processImage sample_codec ''/app'' ''/app/images/a.png''
         default_opts empty_world))) = []
   \<and> files (snd (processImage sample_codec ''/app'' ''/app/images/b.jpg''
         default_opts empty_world)) ''/app/images/formatted/b.webp''
       = Some (\<lparr>input = ''/app/images/b.jpg'', failOn = ''none'', rotated = True,
                 resized = Some \<lparr>rs_width = Fin 1600, rs_withoutEnlargement = True,
                                  rs_fit = ''inside''\<rparr>\<rparr>,
               Webp (Fin 80) 4)
   \<and> files (snd (processImage sample_codec ''/app'' ''/app/images/a.png''
         default_opts empty_world)) ''/app/images/formatted/a.webp''
       = Some (\<lparr>input = ''/app/images/a.png'', failOn = ''none'', rotated = True,
                 resized = None\<rparr>,
               Webp (Fin 80) 4)"
proof -
  let ?fb = "''/app/images/b.jpg''"
  let ?fa = "''/app/images/a.png''"
  let ?Wb = "snd (processImage sample_codec ''/app'' ?fb default_opts empty_world)"
  let ?Wa = "snd (processImage sample_codec ''/app'' ?fa default_opts empty_world)"
  have mb: "read_metadata sample_codec (sharp ?fb) = Inr \<lparr>width = Some (Fin 2000)\<rparr>"
    by (simp add: sample_codec_def sharp_def path_basename_def)
  have ma: "read_metadata sample_codec (sharp ?fa) = Inr \<lparr>width = Some (Fin 800)\<rparr>"
    by (simp add: sample_codec_def sharp_def path_basename_def)
  have pb: "width_plausible \<lparr>width = Some (Fin 2000)\<rparr>" by (simp add: width_plausible_def)
  have pa: "width_plausible \<lparr>width = Some (Fin 800)\<rparr>" by (simp add: width_plausible_def)
  note tb = resize_decision[OF mb pb, where opts = default_opts and dn = "''/app''"
      and w = empty_world]
  note ta = resize_decision[OF ma pa, where opts = default_opts and dn = "''/app''"
      and w = empty_world]
  have e: "calls empty_world = []" by (simp add: empty_world_def)
  have dm: "maxWidth default_opts = Fin 1600" by (simp add: default_opts_def)
  have cb: "\<exists>wd. width \<lparr>width = Some (Fin 2000)\<rparr> = Some wd \<and> js_gt wd (Fin 0)
                 \<and> js_gt wd (maxWidth default_opts)" by (simp add: dm)
  have ca: "\<not> (\<exists>wd. width \<lparr>width = Some (Fin 800)\<rparr> = Some wd \<and> js_gt wd (Fin 0)
                 \<and> js_gt wd (maxWidth default_opts))" by (simp add: dm)
  have b1: "shouldResize \<lparr>width = Some (Fin 2000)\<rparr> default_opts"
    by (rule iffD2[OF conjunct1[OF tb] cb])
  have a1: "\<not> shouldResize \<lparr>width = Some (Fin 800)\<rparr> default_opts"
    using conjunct1[OF ta] ca by (rule iffD1[OF Not_eq_iff[symmetric], THEN iffD2])
  from conjunct1[OF conjunct2[OF tb], unfolded if_P[OF cb]] obtain rb where rb:
    "calls ?Wb = calls empty_world @ Metadata (sharp ?fb) # rb"
    "resize_requests rb = [\<lparr>rs_width = maxWidth default_opts, rs_withoutEnlargement = True,
                            rs_fit = ''inside''\<rparr>]"
    by (elim exE conjE)
  from conjunct1[OF conjunct2[OF ta], unfolded if_not_P[OF ca]] obtain ra where ra:
    "calls ?Wa = calls empty_world @ Metadata (sharp ?fa) # ra"
    "resize_requests ra = []"
    by (elim exE conjE)
  have b2: "resize_requests (calls ?Wb)
       = [\<lparr>rs_width = Fin 1600, rs_withoutEnlargement = True, rs_fit = ''inside''\<rparr>]"
    unfolding rb(1) e by (simp add: rb(2) dm)
  have a2: "resize_requests (calls ?Wa) = []"
    unfolding ra(1) e by (simp add: ra(2))
  have tf: "\<And>present pl enc p. toFile sample_codec present pl enc p = Wrote (pl, enc)"
    by (simp add: sample_codec_def)
  have ob: "outputs_of ''/app'' ?fb default_opts
               = [\<lparr>fmt = ''webp'', outFile = ''/app/images/formatted/b.webp'', fn = Webp (Fin 80) 4\<rparr>,
                  \<lparr>fmt = ''jpeg'', outFile = ''/app/images/formatted/b.jpg'', fn = Jpeg (Fin 80) True\<rparr>]"
    by code_simp
  have oa: "outputs_of ''/app'' ?fa default_opts
               = [\<lparr>fmt = ''webp'', outFile = ''/app/images/formatted/a.webp'', fn = Webp (Fin 80) 4\<rparr>,
                  \<lparr>fmt = ''jpeg'', outFile = ''/app/images/formatted/a.jpg'', fn = Jpeg (Fin 80) True\<rparr>]"
    by code_simp
  have nb: "files ?Wb ''/app/images/formatted/b.webp'' \<noteq> None" by code_simp
  from nb[unfolded not_None_eq] obtain db where
    db: "files ?Wb ''/app/images/formatted/b.webp'' = Some db" by (elim exE)
  have eb: "files empty_world ''/app/images/formatted/b.webp'' \<noteq> Some db"
    by (simp add: empty_world_def)
  note xb = mp[OF spec[OF spec[OF conjunct2[OF conjunct2[OF tb]]]] conjI[OF db eb],
      unfolded if_P[OF cb] ob tf]
  have vb: "db = (\<lparr>input = ''/app/images/b.jpg'', failOn = ''none'', rotated = True,
                 resized = Some \<lparr>rs_width = Fin 1600, rs_withoutEnlargement = True,
                                  rs_fit = ''inside''\<rparr>\<rparr>,
               Webp (Fin 80) 4)"
    using xb by (auto simp: sharp_def dm)
  have b3: "files ?Wb ''/app/images/formatted/b.webp''
       = Some (\<lparr>input = ''/app/images/b.jpg'', failOn = ''none'', rotated = True,
                 resized = Some \<lparr>rs_width = Fin 1600, rs_withoutEnlargement = True,
                                  rs_fit = ''inside''\<rparr>\<rparr>,
               Webp (Fin 80) 4)"
    by (rule trans[OF db]) (simp only: vb)
  have na: "files ?Wa ''/app/images/formatted/a.webp'' \<noteq> None" by code_simp
  from na[unfolded not_None_eq] obtain da where
    da: "files ?Wa ''/app/images/formatted/a.webp'' = Some da" by (elim exE)
  have ea: "files empty_world ''/app/images/formatted/a.webp'' \<noteq> Some da"
    by (simp add: empty_world_def)
  note xa = mp[OF spec[OF spec[OF conjunct2[OF conjunct2[OF ta]]]] conjI[OF da ea],
      unfolded if_not_P[OF ca] oa tf]
  have va: "da = (\<lparr>input = ''/app/images/a.png'', failOn = ''none'', rotated = True,
                 resized = None\<rparr>,
               Webp (Fin 80) 4)"
    using xa by (auto simp: sharp_def)
  have a3: "files ?Wa ''/app/images/formatted/a.webp''
       = Some (\<lparr>input = ''/app/images/a.png'', failOn = ''none'', rotated = True,
                 resized = None\<rparr>,
               Webp (Fin 80) 4)"
    by (rule trans[OF da]) (simp only: va)
  show ?thesis by (intro conjI) (rule b1 a1 b2 a2 b3 a3)+
qed

section \<open>Isolation of per-file errors\<close>

lemma main_loop_trace:
  "\<exists>ws. length ws = Suc (length fs) \<and> ws ! 0 = w
     \<and> snd (main_loop cd dn opts fs acc w) = ws ! length fs
     \<and> fst (main_loop cd dn opts fs acc w)
         = acc @ concat (map (\<lambda>i. case fst (processImage cd dn (fs ! i) opts (ws ! i)) of
                                     Inr res \<Rightarrow> res | Inl err \<Rightarrow> [])
                          [0..<length fs])
     \<and> (\<forall>i<length fs.
           ws ! Suc i
             = (case processImage cd dn (fs ! i) opts (ws ! i) of
                  (Inr res, v) \<Rightarrow> v
                | (Inl err, v) \<Rightarrow> v\<lparr>stderr := stderr v @ [error_line (fs ! i) err]\<rparr>)
         \<and> (\<forall>err v. processImage cd dn (fs ! i) opts (ws ! i) = (Inl err, v)
               \<longrightarrow> error_line (fs ! i) err
                     \<in> set (stderr (snd (main_loop cd dn opts fs acc w)))))"
proof (induction fs arbitrary: acc w)
  case Nil
  show ?case by (rule exI[of _ "[w]"]) simp
next
  case (Cons f fs)
  obtain x v where p: "processImage cd dn f opts w = (x, v)"
    by (cases "processImage cd dn f opts w")
  define wn where "wn = (case x of Inr res \<Rightarrow> v
                          | Inl err \<Rightarrow> v\<lparr>stderr := stderr v @ [error_line f err]\<rparr>)"
  define an where "an = (case x of Inr res \<Rightarrow> acc @ res | Inl err \<Rightarrow> acc)"
  have step: "main_loop cd dn opts (f # fs) acc w = main_loop cd dn opts fs an wn"
    using p by (cases x) (simp_all add: wn_def an_def)
  from Cons.IH[where acc = an and w = wn] obtain ws where ws:
    "length ws = Suc (length fs)" "ws ! 0 = wn"
    "snd (main_loop cd dn opts fs an wn) = ws ! length fs"
    "fst (main_loop cd dn opts fs an wn)
         = an @ concat (map (\<lambda>i. case fst (processImage cd dn (fs ! i) opts (ws ! i)) of
                                     Inr res \<Rightarrow> res | Inl err \<Rightarrow> [])
                          [0..<length fs])"
    "\<forall>i<length fs.
           ws ! Suc i
             = (case processImage cd dn (fs ! i) opts (ws ! i) of
                  (Inr res, v) \<Rightarrow> v
                | (Inl err, v) \<Rightarrow> v\<lparr>stderr := stderr v @ [error_line (fs ! i) err]\<rparr>)
         \<and> (\<forall>err v. processImage cd dn (fs ! i) opts (ws ! i) = (Inl err, v)
               \<longrightarrow> error_line (fs ! i) err
                     \<in> set (stderr (snd (main_loop cd dn opts fs an wn))))"
    by blast
  let ?ws = "w # ws"
  have a: "length ?ws = Suc (length (f # fs))" using ws(1) by simp
  have b: "?ws ! 0 = w" by simp
  have c: "snd (main_loop cd dn opts (f # fs) acc w) = ?ws ! length (f # fs)"
    using ws(3) step by simp
  have an: "an = acc @ (case fst (processImage cd dn f opts w) of Inr res \<Rightarrow> res | Inl err \<Rightarrow> [])"
    using p by (cases x) (simp_all add: an_def)
  have d: "fst (main_loop cd dn opts (f # fs) acc w)
         = acc @ concat (map (\<lambda>i. case fst (processImage cd dn ((f # fs) ! i) opts (?ws ! i)) of
                                     Inr res \<Rightarrow> res | Inl err \<Rightarrow> [])
                          [0..<length (f # fs)])"
  proof -
    have "fst (main_loop cd dn opts (f # fs) acc w)
         = an @ concat (map (\<lambda>i. case fst (processImage cd dn (fs ! i) opts (ws ! i)) of
                                     Inr res \<Rightarrow> res | Inl err \<Rightarrow> [])
                          [0..<length fs])"
      unfolding step by (rule ws(4))
    then show ?thesis unfolding an by (simp add: map_upt_Suc_shift del: upt_Suc)
  qed
  have e: "\<forall>i<length (f # fs).
           ?ws ! Suc i
             = (case processImage cd dn ((f # fs) ! i) opts (?ws ! i) of
                  (Inr res, v) \<Rightarrow> v
                | (Inl err, v) \<Rightarrow> v\<lparr>stderr := stderr v @ [error_line ((f # fs) ! i) err]\<rparr>)
         \<and> (\<forall>err v. processImage cd dn ((f # fs) ! i) opts (?ws ! i) = (Inl err, v)
               \<longrightarrow> error_line ((f # fs) ! i) err
                     \<in> set (stderr (snd (main_loop cd dn opts (f # fs) acc w))))"
  proof (intro allI impI)
    fix i assume i: "i < length (f # fs)"
    show "?ws ! Suc i
             = (case processImage cd dn ((f # fs) ! i) opts (?ws ! i) of
                  (Inr res, v) \<Rightarrow> v
                | (Inl err, v) \<Rightarrow> v\<lparr>stderr := stderr v @ [error_line ((f # fs) ! i) err]\<rparr>)
         \<and> (\<forall>err v. processImage cd dn ((f # fs) ! i) opts (?ws ! i) = (Inl err, v)
               \<longrightarrow> error_line ((f # fs) ! i) err
                     \<in> set (stderr (snd (main_loop cd dn opts (f # fs) acc w))))"
    proof (cases i)
      case 0
      have s0: "?ws ! Suc 0 = (case processImage cd dn f opts w of
                  (Inr res, v) \<Rightarrow> v
                | (Inl err, v) \<Rightarrow> v\<lparr>stderr := stderr v @ [error_line f err]\<rparr>)"
        using p ws(2) by (cases x) (simp_all add: wn_def)
      have l0: "\<forall>err u. processImage cd dn f opts w = (Inl err, u)
               \<longrightarrow> error_line f err \<in> set (stderr (snd (main_loop cd dn opts (f # fs) acc w)))"
      proof (intro allI impI)
        fix err u assume q: "processImage cd dn f opts w = (Inl err, u)"
        with p have x: "x = Inl err" "u = v" by simp_all
        from main_loop_stderr[of cd dn opts fs an wn] obtain vs where
          "stderr (snd (main_loop cd dn opts fs an wn)) = stderr wn @ vs" by blast
        then show "error_line f err \<in> set (stderr (snd (main_loop cd dn opts (f # fs) acc w)))"
          unfolding step using x by (simp add: wn_def)
      qed
      show ?thesis unfolding 0 nth_Cons_0 using s0 l0 by simp
    next
      case (Suc j)
      then have j: "j < length fs" using i by simp
      from ws(5)[rule_format, OF j] show ?thesis unfolding Suc step nth_Cons_Suc by simp
    qed
  qed
  show ?case by (rule exI[of _ ?ws]) (intro conjI a b c d e)
qed

text \<open>
  Claim C3. In a run that got past its start-up checks, the process exits with status 0,
  and the files found are processed one after the other, each by \<^verbatim>\<open>processImage\<close>
  from the state its predecessor left (the states \<open>ws\<close>). A file on which
  \<^verbatim>\<open>processImage\<close> raises an error, at any stage (every stage's error is a result
  \<open>Inl\<close> of \<^const>\<open>processImage\<close>), contributes no result, and one line with its base
  name and the error's message is added to stderr, where it still is at the end of the
  run; nothing else is done for it. Every other file contributes exactly the results
  \<^verbatim>\<open>processImage\<close> returns for it, and the results reported are those of all files,
  in order.
\<close>

theorem per_file_isolation:
  assumes "images_accessible ev" and "mkdir_error ev = None" and "readdir ev = Inr entries"
  shows "exit_code (main cd ev argv w) = 0
       \<and> (\<exists>ws. length ws = Suc (length (listImageFiles (IMAGES_DIR (dirname ev)) entries))
            \<and> ws ! 0 = w
            \<and> after (main cd ev argv w)
                = ws ! length (listImageFiles (IMAGES_DIR (dirname ev)) entries)
            \<and> allResults (main cd ev argv w)
                = concat (map (\<lambda>i.
                     case fst (processImage cd (dirname ev)
                                 (listImageFiles (IMAGES_DIR (dirname ev)) entries ! i)
                                 (parseArgs argv) (ws ! i)) of
                       Inr res \<Rightarrow> res | Inl err \<Rightarrow> [])
                   [0..<length (listImageFiles (IMAGES_DIR (dirname ev)) entries)])
            \<and> (\<forall>i<length (listImageFiles (IMAGES_DIR (dirname ev)) entries).
                  ws ! Suc i
                    = (case processImage cd (dirname ev)
                              (listImageFiles (IMAGES_DIR (dirname ev)) entries ! i)
                              (parseArgs argv) (ws ! i) of
                         (Inr res, v) \<Rightarrow> v
                       | (Inl err, v) \<Rightarrow>
                           v\<lparr>stderr := stderr v @
                               [ [Text (''Error processing ''
                                    @ path_basename
                                        (listImageFiles (IMAGES_DIR (dirname ev)) entries ! i)
                                    @ '':''),
                                  if message err \<noteq> [] then Text (message err)
                                  else Thrown err] ]\<rparr>)
                \<and> (\<forall>err v. processImage cd (dirname ev)
                              (listImageFiles (IMAGES_DIR (dirname ev)) entries ! i)
                              (parseArgs argv) (ws ! i) = (Inl err, v)
                      \<longrightarrow> [Text (''Error processing ''
                               @ path_basename
                                   (listImageFiles (IMAGES_DIR (dirname ev)) entries ! i)
                               @ '':''),
                             if message err \<noteq> [] then Text (message err) else Thrown err]
                            \<in> set (stderr (after (main cd ev argv w))))))"
proof (rule conjI)
  show "exit_code (main cd ev argv w) = 0" by (rule main_startup(1)[OF assms])
  show "\<exists>ws. length ws = Suc (length (listImageFiles (IMAGES_DIR (dirname ev)) entries))
            \<and> ws ! 0 = w
            \<and> after (main cd ev argv w)
                = ws ! length (listImageFiles (IMAGES_DIR (dirname ev)) entries)
            \<and> allResults (main cd ev argv w)
                = concat (map (\<lambda>i.
                     case fst (processImage cd (dirname ev)
                                 (listImageFiles (IMAGES_DIR (dirname ev)) entries ! i)
                                 (parseArgs argv) (ws ! i)) of
                       Inr res \<Rightarrow> res | Inl err \<Rightarrow> [])
                   [0..<length (listImageFiles (IMAGES_DIR (dirname ev)) entries)])
            \<and> (\<forall>i<length (listImageFiles (IMAGES_DIR (dirname ev)) entries).
                  ws ! Suc i
                    = (case processImage cd (dirname ev)
                              (listImageFiles (IMAGES_DIR (dirname ev)) entries ! i)
                              (parseArgs argv) (ws ! i) of
                         (Inr res, v) \<Rightarrow> v
                       | (Inl err, v) \<Rightarrow>
                           v\<lparr>stderr := stderr v @
                               [ [Text (''Error processing ''
                                    @ path_basename
                                        (listImageFiles (IMAGES_DIR (dirname ev)) entries ! i)
                                    @ '':''),
                                  if message err \<noteq> [] then Text (message err)
                                  else Thrown err] ]\<rparr>)
                \<and> (\<forall>err v. processImage cd (dirname ev)
                              (listImageFiles (IMAGES_DIR (dirname ev)) entries ! i)
                              (parseArgs argv) (ws ! i) = (Inl err, v)
                      \<longrightarrow> [Text (''Error processing ''
                               @ path_basename
                                   (listImageFiles (IMAGES_DIR (dirname ev)) entries ! i)
                               @ '':''),
                             if message err \<noteq> [] then Text (message err) else Thrown err]
                            \<in> set (stderr (after (main cd ev argv w)))))"
    using main_loop_trace[where fs = "listImageFiles (IMAGES_DIR (dirname ev)) entries"
        and w = w and cd = cd and dn = "dirname ev" and opts = "parseArgs argv" and acc = "[]"]
    unfolding main_startup(2,3)[OF assms] error_line_def message_or_error_def append_Nil .
qed

theorem per_file_isolation_witness:
  "exit_code (main sample_codec
       (sample_env [file_entry ''a.png'', file_entry ''broken.png'', file_entry ''b.jpg''])
       [''node'', ''index.mjs''] empty_world) = 0
   \<and> allResults (main sample_codec
       (sample_env [file_entry ''a.png'', file_entry ''broken.png'', file_entry ''b.jpg''])
       [''node'', ''index.mjs''] empty_world)
     = [\<lparr>src = ''a.png'', out = ''a.webp'', res_fmt = ''webp'', status = Written\<rparr>,
        \<lparr>src = ''a.png'', out = ''a.jpg'', res_fmt = ''jpeg'', status = Written\<rparr>,
        \<lparr>src = ''b.jpg'', out = ''b.webp'', res_fmt = ''webp'', status = Written\<rparr>,
        \<lparr>src = ''b.jpg'', out = ''b.jpg'', res_fmt = ''jpeg'', status = Written\<rparr>]
   \<and> stderr (after (main sample_codec
       (sample_env [file_entry ''a.png'', file_entry ''broken.png'', file_entry ''b.jpg''])
       [''node'', ''index.mjs''] empty_world))
     = [ [Text ''Error processing broken.png:'',
          Text ''Input file contains unsupported image format''] ]"
proof -
  let ?ev = "sample_env [file_entry ''a.png'', file_entry ''broken.png'', file_entry ''b.jpg'']"
  let ?argv = "[''node'', ''index.mjs'']"
  let ?E = "Error ''Input file contains unsupported image format''"
  let ?fa = "''/app/images/a.png''"
  let ?fx = "''/app/images/broken.png''"
  let ?fb = "''/app/images/b.jpg''"
  let ?Ra = "[\<lparr>src = ''a.png'', out = ''a.webp'', res_fmt = ''webp'', status = Written\<rparr>,
              \<lparr>src = ''a.png'', out = ''a.jpg'', res_fmt = ''jpeg'', status = Written\<rparr>]"
  let ?Rb = "[\<lparr>src = ''b.jpg'', out = ''b.webp'', res_fmt = ''webp'', status = Written\<rparr>,
              \<lparr>src = ''b.jpg'', out = ''b.jpg'', res_fmt = ''jpeg'', status = Written\<rparr>]"
  let ?Pa = "processImage sample_codec (dirname ?ev) ?fa (parseArgs ?argv) empty_world"
  let ?Wa = "snd ?Pa"
  let ?Px = "processImage sample_codec (dirname ?ev) ?fx (parseArgs ?argv) ?Wa"
  let ?Wx = "(snd ?Px)\<lparr>stderr := stderr (snd ?Px) @
               [ [Text (''Error processing '' @ path_basename ?fx @ '':''),
                  if message ?E \<noteq> [] then Text (message ?E) else Thrown ?E] ]\<rparr>"
  let ?Pb = "processImage sample_codec (dirname ?ev) ?fb (parseArgs ?argv) ?Wx"
  let ?Wb = "snd ?Pb"
  have h1: "images_accessible ?ev" by (simp add: sample_env_def)
  have h2: "mkdir_error ?ev = None" by (simp add: sample_env_def)
  have h3: "readdir ?ev = Inr [file_entry ''a.png'', file_entry ''broken.png'', file_entry ''b.jpg'']"
    by (simp add: sample_env_def)
  have h4: "listImageFiles (IMAGES_DIR (dirname ?ev))
              [file_entry ''a.png'', file_entry ''broken.png'', file_entry ''b.jpg'']
            = [?fa, ?fx, ?fb]"
    by code_simp
  have len: "length [?fa, ?fx, ?fb] = Suc (Suc (Suc 0))" by simp
  have upt: "[0..<Suc (Suc (Suc 0))] = [0, Suc 0, Suc (Suc 0)]" by (simp add: upt_rec)
  have ra: "fst ?Pa = Inr ?Ra" by code_simp
  have rx: "fst ?Px = Inl ?E" by code_simp
  have rb: "fst ?Pb = Inr ?Rb" by code_simp
  have fin: "stderr ?Wb = [ [Text ''Error processing broken.png:'',
          Text ''Input file contains unsupported image format''] ]" by code_simp
  note t = per_file_isolation[OF h1 h2 h3, where cd = sample_codec and argv = ?argv
      and w = empty_world, unfolded h4 len upt]
  have e: "exit_code (main sample_codec ?ev ?argv empty_world) = 0" by (rule conjunct1[OF t])
  from conjunct2[OF t] obtain ws where
    w0: "ws ! 0 = empty_world"
    and af: "after (main sample_codec ?ev ?argv empty_world) = ws ! Suc (Suc (Suc 0))"
    and al: "allResults (main sample_codec ?ev ?argv empty_world)
                = concat (map (\<lambda>i.
                     case fst (processImage sample_codec (dirname ?ev) ([?fa, ?fx, ?fb] ! i)
                                 (parseArgs ?argv) (ws ! i)) of
                       Inr res \<Rightarrow> res | Inl err \<Rightarrow> [])
                   [0, Suc 0, Suc (Suc 0)])"
    and st: "\<forall>i<Suc (Suc (Suc 0)).
                  ws ! Suc i
                    = (case processImage sample_codec (dirname ?ev) ([?fa, ?fx, ?fb] ! i)
                              (parseArgs ?argv) (ws ! i) of
                         (Inr res, v) \<Rightarrow> v
                       | (Inl err, v) \<Rightarrow>
                           v\<lparr>stderr := stderr v @
                               [ [Text (''Error processing ''
                                    @ path_basename ([?fa, ?fx, ?fb] ! i) @ '':''),
                                  if message err \<noteq> [] then Text (message err)
                                  else Thrown err] ]\<rparr>)
                \<and> (\<forall>err v. processImage sample_codec (dirname ?ev) ([?fa, ?fx, ?fb] ! i)
                              (parseArgs ?argv) (ws ! i) = (Inl err, v)
                      \<longrightarrow> [Text (''Error processing ''
                               @ path_basename ([?fa, ?fx, ?fb] ! i) @ '':''),
                             if message err \<noteq> [] then Text (message err) else Thrown err]
                            \<in> set (stderr (after (main sample_codec ?ev ?argv empty_world))))"
    by (elim exE conjE)
  have i0: "0 < Suc (Suc (Suc 0))" and i1: "Suc 0 < Suc (Suc (Suc 0))"
    and i2: "Suc (Suc 0) < Suc (Suc (Suc 0))" by simp_all
  have w1: "ws ! Suc 0 = ?Wa"
    by (rule trans[OF conjunct1[OF mp[OF spec[OF st] i0]]])
      (simp only: nth_Cons_0 w0 case_prod_beta ra sum.case)
  have w2: "ws ! Suc (Suc 0) = ?Wx"
    by (rule trans[OF conjunct1[OF mp[OF spec[OF st] i1]]])
      (simp only: nth_Cons_0 nth_Cons_Suc w1 case_prod_beta rx sum.case)
  have w3: "ws ! Suc (Suc (Suc 0)) = ?Wb"
    by (rule trans[OF conjunct1[OF mp[OF spec[OF st] i2]]])
      (simp only: nth_Cons_0 nth_Cons_Suc w2 case_prod_beta rb sum.case)
  have a: "allResults (main sample_codec ?ev ?argv empty_world)
     = [\<lparr>src = ''a.png'', out = ''a.webp'', res_fmt = ''webp'', status = Written\<rparr>,
        \<lparr>src = ''a.png'', out = ''a.jpg'', res_fmt = ''jpeg'', status = Written\<rparr>,
        \<lparr>src = ''b.jpg'', out = ''b.webp'', res_fmt = ''webp'', status = Written\<rparr>,
        \<lparr>src = ''b.jpg'', out = ''b.jpg'', res_fmt = ''jpeg'', status = Written\<rparr>]"
    by (rule trans[OF al],
        simp only: list.map concat.simps nth_Cons_0 nth_Cons_Suc w0 w1 w2 ra rx rb sum.case,
        simp only: append.simps)
  have s: "stderr (after (main sample_codec ?ev ?argv empty_world))
     = [ [Text ''Error processing broken.png:'',
          Text ''Input file contains unsupported image format''] ]"
    by (rule trans[OF arg_cong[where f = stderr, OF trans[OF af w3]] fin])
  show ?thesis by (intro conjI) (rule e a s)+
qed

section \<open>Output paths and the second OutputSpec of a path\<close>

lemma outputs_of_nth:
  assumes "i < length (outputs_of dn f opts)"
  shows "\<exists>t. spec_valid_token t
           \<and> outputs_of dn f opts ! i
               = spec_output dn (path_basename_ext f (path_extname f)) opts t"
proof -
  let ?ts = "filter spec_valid_token (formats opts)"
  from assms have i: "i < length ?ts" by (simp add: outputs_of_def)
  then have "?ts ! i \<in> set ?ts" by (rule nth_mem)
  then have "spec_valid_token (?ts ! i)" by simp
  moreover have "outputs_of dn f opts ! i
      = spec_output dn (path_basename_ext f (path_extname f)) opts (?ts ! i)"
    using i by (simp add: outputs_of_def)
  ultimately show ?thesis by blast
qed

lemma outFile_out:
  assumes "i < length (outputs_of dn f opts)"
  shows "outFile (outputs_of dn f opts ! i)
           = path_join (OUTPUT_DIR dn) (path_basename (outFile (outputs_of dn f opts ! i)))"
proof -
  from outputs_of_nth[OF assms] obtain t where t: "spec_valid_token t"
    "outputs_of dn f opts ! i = spec_output dn (path_basename_ext f (path_extname f)) opts t"
    by blast
  show ?thesis unfolding t(2) spec_output_out[OF t(1)] by (simp add: spec_output_def)
qed

lemma outputs_of_same_stem:
  "path_basename_ext fa (path_extname fa) = path_basename_ext fb (path_extname fb)
     \<Longrightarrow> outputs_of dn fa opts = outputs_of dn fb opts"
  by (simp add: outputs_of_def)

lemma processImage_out:
  assumes "processImage cd dn f opts w = (Inr rs, w')"
  shows "map out rs
            = map (\<lambda>t. path_basename_ext f (path_extname f) @ ''.''
                        @ spec_extension (spec_normalized t))
                (filter spec_valid_token (formats opts))"
proof -
  let ?n = "path_basename_ext f (path_extname f)"
  let ?ts = "filter spec_valid_token (formats opts)"
  have fo: "reaches_fanout cd f opts" by (rule processImage_Inr_fanout[OF assms])
  from processImage_fanout[OF fo, of w dn] assms obtain work w3 where
    "emit_results cd opts (path_basename f) work (outputs_of dn f opts) [] w3 = (Inr rs, w')"
    by auto
  from emit_results_Inr[OF this] obtain sts where
    sts: "length sts = length (outputs_of dn f opts)"
    "rs = map2 (result_of (path_basename f)) (outputs_of dn f opts) sts" by auto
  have len: "length sts = length ?ts" using sts(1) by (simp add: outputs_of_def)
  have rs: "rs = map2 (\<lambda>t st. result_of (path_basename f) (spec_output dn ?n opts t) st) ?ts sts"
    using sts(2) by (simp add: outputs_of_def zip_map1 case_prod_unfold)
  have valid: "\<And>i. i < length ?ts \<Longrightarrow> spec_valid_token (?ts ! i)"
    using nth_mem[of _ ?ts] by fastforce
  show "map out rs = map (\<lambda>t. ?n @ ''.'' @ spec_extension (spec_normalized t)) ?ts"
    using len rs valid
    by (intro nth_equalityI) (simp_all add: result_of_def spec_output_out)
qed

lemma processImage_Inr_nth:
  assumes "processImage cd dn f opts w = (Inr rs, w')"
  shows "length rs = length (outputs_of dn f opts)"
    and "\<And>i. i < length rs \<Longrightarrow>
           rs ! i = result_of (path_basename f) (outputs_of dn f opts ! i)
                      (decided_status opts
                         (exists_before opts (files w) (outputs_of dn f opts) i))"
    and "\<And>i. i < length rs \<Longrightarrow>
           outFile (outputs_of dn f opts ! i) = path_join (OUTPUT_DIR dn) (out (rs ! i))"
proof -
  note x = processImage_Inr_exact(2)[OF assms]
  show l: "length rs = length (outputs_of dn f opts)" by (subst x) simp
  show n: "\<And>i. i < length rs \<Longrightarrow>
           rs ! i = result_of (path_basename f) (outputs_of dn f opts ! i)
                      (decided_status opts
                         (exists_before opts (files w) (outputs_of dn f opts) i))"
    using l by (subst x) simp
  fix i assume i: "i < length rs"
  have "out (rs ! i) = path_basename (outFile (outputs_of dn f opts ! i))"
    using n[OF i] by (simp add: result_of_def)
  then show "outFile (outputs_of dn f opts ! i) = path_join (OUTPUT_DIR dn) (out (rs ! i))"
    using outFile_out[of i dn f opts] i l by simp
qed

lemma processImage_skips_all:
  assumes "\<not> overwrite opts" and "reaches_fanout cd f opts"
    and "\<forall>s\<in>set (outputs_of dn f opts). files w (outFile s) \<noteq> None"
  shows "processImage cd dn f opts w
           = (Inr (map (\<lambda>s. result_of (path_basename f) s SkippedExists) (outputs_of dn f opts)),
              fanout_start cd f opts w)"
proof -
  have "\<forall>s\<in>set (outputs_of dn f opts). files (fanout_start cd f opts w) (outFile s) \<noteq> None"
    using assms(3) by simp
  from emit_results_all_exist[OF assms(1) this, of cd "path_basename f"
      "working_pipeline cd f opts" "[]"]
  show ?thesis unfolding processImage_reaches[OF assms(2), of dn w] by simp
qed

lemma processImage_outputs_exist:
  assumes "processImage cd dn f opts w = (Inr rs, w')" and "\<not> dryRun opts"
  shows "\<forall>s\<in>set (outputs_of dn f opts). files w' (outFile s) \<noteq> None"
proof -
  have fo: "reaches_fanout cd f opts" by (rule processImage_Inr_fanout[OF assms(1)])
  have e: "emit_results cd opts (path_basename f) (working_pipeline cd f opts)
             (outputs_of dn f opts) [] (fanout_start cd f opts w) = (Inr rs, w')"
    using processImage_reaches[OF fo, of dn w] assms(1) by simp
  from emit_results_Inr[OF e] assms(2) show ?thesis by blast
qed

text \<open>
  Claim C10. The output name of a result is the source's base name without its extension
  (what \<^verbatim>\<open>path.basename(src, ext)\<close> leaves), a dot and the extension of the normalized
  format; the output path is the output directory joined with that name, and the source's
  extension is not in it. With \<^verbatim>\<open>overwrite\<close> false: an OutputSpec whose path is there
  when its file's processing begins reports skipped-exists and the file keeps its data;
  of two OutputSpecs of one file with the same output name (\<^verbatim>\<open>jpeg\<close> and
  \<^verbatim>\<open>jpg\<close>), the second reports skipped-exists when the first was written, and only
  written results have a write among the codec calls. And for two sources with one base
  name: once the first has been processed, outside a dry run, its outputs are there and
  keep their data in every state the run reaches later, and processing the second in
  such a state gives the first's results with the second's name and status
  skipped-exists, and changes no file.
\<close>

theorem shared_output_path:
  "path_basename_ext f (path_extname f) @ path_extname f = path_basename f
   \<and> (\<forall>rs w'. processImage cd dn f opts w = (Inr rs, w') \<longrightarrow>
        map out rs
          = map (\<lambda>t. path_basename_ext f (path_extname f) @ ''.''
                      @ spec_extension (spec_normalized t))
              (filter spec_valid_token (formats opts))
      \<and> calls w'
          = calls (fanout_start cd f opts w)
            @ concat (map (\<lambda>i. if status (rs ! i) = Written
                                then [Clone (working_pipeline cd f opts),
                                      Encode (fn (outputs_of dn f opts ! i)),
                                      ToFile (path_join (OUTPUT_DIR dn) (out (rs ! i)))]
                                else [])
                       [0..<length rs])
      \<and> (\<forall>i<length rs. status (rs ! i) = Written
            \<longrightarrow> files w' (path_join (OUTPUT_DIR dn) (out (rs ! i))) \<noteq> None)
      \<and> (\<not> overwrite opts \<longrightarrow>
           (\<forall>i<length rs. files w (path_join (OUTPUT_DIR dn) (out (rs ! i))) \<noteq> None
              \<longrightarrow> status (rs ! i) = SkippedExists
                  \<and> files w' (path_join (OUTPUT_DIR dn) (out (rs ! i)))
                      = files w (path_join (OUTPUT_DIR dn) (out (rs ! i))))
         \<and> (\<forall>i j. i < j \<and> j < length rs \<and> out (rs ! i) = out (rs ! j)
                   \<and> status (rs ! i) = Written
              \<longrightarrow> status (rs ! j) = SkippedExists)))
   \<and> later cd opts w (snd (processImage cd dn f opts w))
   \<and> later cd opts w (snd (main_loop cd dn opts fs acc w))
   \<and> (\<not> overwrite opts \<and> \<not> dryRun opts
       \<and> path_basename_ext fa (path_extname fa) = path_basename_ext fb (path_extname fb)
       \<and> processImage cd dn fa opts w = (Inr rsa, wa) \<and> later cd opts wa wb
       \<and> reaches_fanout cd fb opts
      \<longrightarrow> (\<forall>r\<in>set rsa. files wa (path_join (OUTPUT_DIR dn) (out r)) \<noteq> None
                     \<and> files wb (path_join (OUTPUT_DIR dn) (out r))
                         = files wa (path_join (OUTPUT_DIR dn) (out r)))
          \<and> processImage cd dn fb opts wb
              = (Inr (map (\<lambda>r. r\<lparr>src := path_basename fb, status := SkippedExists\<rparr>) rsa),
                 fanout_start cd fb opts wb))"
proof (intro conjI allI impI)
  show "path_basename_ext f (path_extname f) @ path_extname f = path_basename f"
    by (rule nameNoExt_extname)
  show "later cd opts w (snd (processImage cd dn f opts w))" by (rule later_processImage)
  show "later cd opts w (snd (main_loop cd dn opts fs acc w))" by (rule later_main_loop)
next
  fix rs w'
  assume p: "processImage cd dn f opts w = (Inr rs, w')"
  let ?specs = "outputs_of dn f opts"
  let ?D = "\<lambda>i. decided_status opts (exists_before opts (files w) ?specs i)"
  note x = processImage_Inr_exact[OF p]
  note n = processImage_Inr_nth[OF p]
  have st: "\<And>i. i < length rs \<Longrightarrow> status (rs ! i) = ?D i"
    by (simp add: n(2) result_of_def)
  show "map out rs
          = map (\<lambda>t. path_basename_ext f (path_extname f) @ ''.''
                      @ spec_extension (spec_normalized t))
              (filter spec_valid_token (formats opts))"
    by (rule processImage_out[OF p])
  show "calls w'
          = calls (fanout_start cd f opts w)
            @ concat (map (\<lambda>i. if status (rs ! i) = Written
                                then [Clone (working_pipeline cd f opts),
                                      Encode (fn (?specs ! i)),
                                      ToFile (path_join (OUTPUT_DIR dn) (out (rs ! i)))]
                                else [])
                       [0..<length rs])"
  proof -
    have "map (\<lambda>i. if status (rs ! i) = Written
                                then [Clone (working_pipeline cd f opts),
                                      Encode (fn (?specs ! i)),
                                      ToFile (path_join (OUTPUT_DIR dn) (out (rs ! i)))]
                                else [])
                       [0..<length rs]
        = map (\<lambda>i. if ?D i = Written then write_calls (working_pipeline cd f opts) (?specs ! i)
                        else [])
                      [0..<length ?specs]"
      by (rule map_cong) (simp_all add: st write_calls_def n(1) n(3)[symmetric])
    then show ?thesis by (simp only: x(3))
  qed
  {
    fix i assume i: "i < length rs" and wr: "status (rs ! i) = Written"
    have "files w' (outFile (?specs ! i)) \<noteq> None"
      using x(4) st[OF i] wr i n(1) by simp
    then show "files w' (path_join (OUTPUT_DIR dn) (out (rs ! i))) \<noteq> None"
      using n(3)[OF i] by simp
  }
  assume no: "\<not> overwrite opts"
  {
    fix i assume i: "i < length rs"
      and ex: "files w (path_join (OUTPUT_DIR dn) (out (rs ! i))) \<noteq> None"
    from ex have "exists_before opts (files w) ?specs i"
      by (simp add: exists_before_def n(3)[OF i])
    then show "status (rs ! i) = SkippedExists" using st[OF i] no by (simp add: decided_status_def)
    from ex obtain c where c: "files w (path_join (OUTPUT_DIR dn) (out (rs ! i))) = Some c" by auto
    from processImage_keeps[OF no c, of cd dn f] p
    show "files w' (path_join (OUTPUT_DIR dn) (out (rs ! i)))
            = files w (path_join (OUTPUT_DIR dn) (out (rs ! i)))" using c by simp
  }
  {
    fix i j
    assume a: "i < j \<and> j < length rs \<and> out (rs ! i) = out (rs ! j) \<and> status (rs ! i) = Written"
    then have i: "i < length rs" and j: "j < length rs" and ij: "i < j" by simp_all
    from a st[OF i] have nd: "\<not> dryRun opts" by (simp add: decided_status_def split: if_splits)
    have same: "outFile (?specs ! j) = outFile (?specs ! i)"
      using n(3)[OF i] n(3)[OF j] a by simp
    have "?specs ! i \<in> set (take j ?specs)"
      using ij j n(1) by (auto simp: in_set_conv_nth intro!: exI[of _ i])
    then have "outFile (?specs ! j) \<in> outFile ` set (take j ?specs)"
      unfolding same by (rule imageI)
    then have "exists_before opts (files w) ?specs j" using nd by (simp add: exists_before_def)
    then show "status (rs ! j) = SkippedExists" using st[OF j] no by (simp add: decided_status_def)
  }
next
  assume a: "\<not> overwrite opts \<and> \<not> dryRun opts
       \<and> path_basename_ext fa (path_extname fa) = path_basename_ext fb (path_extname fb)
       \<and> processImage cd dn fa opts w = (Inr rsa, wa) \<and> later cd opts wa wb
       \<and> reaches_fanout cd fb opts"
  then have no: "\<not> overwrite opts" and nd: "\<not> dryRun opts"
    and stem: "path_basename_ext fa (path_extname fa) = path_basename_ext fb (path_extname fb)"
    and p: "processImage cd dn fa opts w = (Inr rsa, wa)" and l: "later cd opts wa wb"
    and fo: "reaches_fanout cd fb opts" by simp_all
  let ?specs = "outputs_of dn fa opts"
  note n = processImage_Inr_nth[OF p]
  note same = outputs_of_same_stem[OF stem, of dn opts]
  have ea: "\<forall>s\<in>set ?specs. files wa (outFile s) \<noteq> None"
    by (rule processImage_outputs_exist[OF p nd])
  have kb: "\<And>q. files wa q \<noteq> None \<Longrightarrow> files wb q = files wa q"
  proof -
    fix q assume "files wa q \<noteq> None"
    then obtain c where c: "files wa q = Some c" by auto
    from later_keeps[OF l no c] c show "files wb q = files wa q" by simp
  qed
  have eb: "\<forall>s\<in>set (outputs_of dn fb opts). files wb (outFile s) \<noteq> None"
    using ea kb unfolding same[symmetric] by auto
  show "\<forall>r\<in>set rsa. files wa (path_join (OUTPUT_DIR dn) (out r)) \<noteq> None
                     \<and> files wb (path_join (OUTPUT_DIR dn) (out r))
                         = files wa (path_join (OUTPUT_DIR dn) (out r))"
  proof
    fix r assume "r \<in> set rsa"
    then obtain i where i: "i < length rsa" and r: "r = rsa ! i" by (auto simp: in_set_conv_nth)
    have m: "?specs ! i \<in> set ?specs" using i n(1) by simp
    have q: "path_join (OUTPUT_DIR dn) (out r) = outFile (?specs ! i)"
      unfolding r by (rule n(3)[OF i, symmetric])
    have "files wa (path_join (OUTPUT_DIR dn) (out r)) \<noteq> None" unfolding q using ea m by blast
    then show "files wa (path_join (OUTPUT_DIR dn) (out r)) \<noteq> None
                     \<and> files wb (path_join (OUTPUT_DIR dn) (out r))
                         = files wa (path_join (OUTPUT_DIR dn) (out r))" using kb by blast
  qed
  have "map (\<lambda>r. r\<lparr>src := path_basename fb, status := SkippedExists\<rparr>) rsa
          = map (\<lambda>s. result_of (path_basename fb) s SkippedExists) ?specs"
    using n(1) by (intro nth_equalityI) (simp_all add: n(2) result_of_def)
  then show "processImage cd dn fb opts wb
              = (Inr (map (\<lambda>r. r\<lparr>src := path_basename fb, status := SkippedExists\<rparr>) rsa),
                 fanout_start cd fb opts wb)"
    using processImage_skips_all[OF no fo eb] unfolding same[symmetric] by simp
qed

theorem shared_output_path_witness:
  "fst (processImage sample_codec ''/app'' ''/app/images/a.png'' default_opts
         (snd (main_loop sample_codec ''/app'' default_opts [''/app/images/b.jpg''] []
            (snd (processImage sample_codec ''/app'' ''/app/images/a.jpg'' default_opts
                    empty_world)))))
     = Inr [\<lparr>src = ''a.png'', out = ''a.webp'', res_fmt = ''webp'', status = SkippedExists\<rparr>,
            \<lparr>src = ''a.png'', out = ''a.jpg'', res_fmt = ''jpeg'', status = SkippedExists\<rparr>]
   \<and> files (snd (processImage sample_codec ''/app'' ''/app/images/a.png'' default_opts
         (snd (main_loop sample_codec ''/app'' default_opts [''/app/images/b.jpg''] []
            (snd (processImage sample_codec ''/app'' ''/app/images/a.jpg'' default_opts
                    empty_world))))))
       ''/app/images/formatted/a.webp''
     = Some (sharp ''/app/images/a.jpg'', Webp (Fin 80) 4)
   \<and> fst (processImage sample_codec ''/app'' ''/app/images/a.png''
         (parseArgs [''node'', ''index.mjs'', ''--formats=jpeg,jpg'']) empty_world)
     = Inr [\<lparr>src = ''a.png'', out = ''a.jpg'', res_fmt = ''jpeg'', status = Written\<rparr>,
            \<lparr>src = ''a.png'', out = ''a.jpg'', res_fmt = ''jpeg'', status = SkippedExists\<rparr>]
   \<and> calls (snd (processImage sample_codec ''/app'' ''/app/images/a.png''
         (parseArgs [''node'', ''index.mjs'', ''--formats=jpeg,jpg'']) empty_world))
     = [Metadata (sharp ''/app/images/a.png''), Clone (sharp ''/app/images/a.png''),
        Encode (Jpeg (Fin 80) True), ToFile ''/app/images/formatted/a.jpg'']
   \<and> allResults (main sample_codec
         (sample_env [file_entry ''a.jpg'', file_entry ''b.jpg'', file_entry ''a.png''])
         [''node'', ''index.mjs''] empty_world)
     = [\<lparr>src = ''a.jpg'', out = ''a.webp'', res_fmt = ''webp'', status = Written\<rparr>,
        \<lparr>src = ''a.jpg'', out = ''a.jpg'', res_fmt = ''jpeg'', status = Written\<rparr>,
        \<lparr>src = ''b.jpg'', out = ''b.webp'', res_fmt = ''webp'', status = Written\<rparr>,
        \<lparr>src = ''b.jpg'', out = ''b.jpg'', res_fmt = ''jpeg'', status = Written\<rparr>,
        \<lparr>src = ''a.png'', out = ''a.webp'', res_fmt = ''webp'', status = SkippedExists\<rparr>,
        \<lparr>src = ''a.png'', out = ''a.jpg'', res_fmt = ''jpeg'', status = SkippedExists\<rparr>]
   \<and> files (after (main sample_codec
         (sample_env [file_entry ''a.jpg'', file_entry ''b.jpg'', file_entry ''a.png''])
         [''node'', ''index.mjs''] empty_world)) ''/app/images/formatted/a.webp''
     = Some (sharp ''/app/images/a.jpg'', Webp (Fin 80) 4)"
proof -
  let ?fa = "''/app/images/a.jpg''"
  let ?fb = "''/app/images/a.png''"
  let ?wa = "snd (processImage sample_codec ''/app'' ?fa default_opts empty_world)"
  let ?wb = "snd (main_loop sample_codec ''/app'' default_opts [''/app/images/b.jpg''] [] ?wa)"
  let ?rsa = "[\<lparr>src = ''a.jpg'', out = ''a.webp'', res_fmt = ''webp'', status = Written\<rparr>,
               \<lparr>src = ''a.jpg'', out = ''a.jpg'', res_fmt = ''jpeg'', status = Written\<rparr>]"
  let ?p = "''/app/images/formatted/a.webp''"
  have ha: "fst (processImage sample_codec ''/app'' ?fa default_opts empty_world) = Inr ?rsa"
    by code_simp
  have pa: "processImage sample_codec ''/app'' ?fa default_opts empty_world = (Inr ?rsa, ?wa)"
    by (rule prod_eqI) (simp_all only: fst_conv snd_conv ha)
  have no: "\<not> overwrite default_opts" by (simp add: default_opts_def)
  have nd: "\<not> dryRun default_opts" by (simp add: default_opts_def)
  have stem: "path_basename_ext ?fa (path_extname ?fa) = path_basename_ext ?fb (path_extname ?fb)"
    by code_simp
  have fo: "reaches_fanout sample_codec ?fb default_opts" by code_simp
  have l: "later sample_codec default_opts ?wa ?wb"
    by (rule conjunct1[OF conjunct2[OF conjunct2[OF conjunct2[OF
        shared_output_path[where cd = sample_codec and opts = default_opts and w = ?wa
          and dn = "''/app''" and fs = "[''/app/images/b.jpg'']" and acc = "[]"
          and f = ?fa and fa = ?fa and fb = ?fb and rsa = ?rsa and wa = ?wa and wb = ?wb]]]]])
  note u = shared_output_path[where cd = sample_codec and opts = default_opts and w = empty_world
      and dn = "''/app''" and fs = "[]" and acc = "[]"
      and f = ?fa and fa = ?fa and fb = ?fb and rsa = ?rsa and wa = ?wa and wb = ?wb]
  note c = mp[OF conjunct2[OF conjunct2[OF conjunct2[OF conjunct2[OF u]]]]
      conjI[OF no conjI[OF nd conjI[OF stem conjI[OF pa conjI[OF l fo]]]]]]
  note e = conjunct2[OF c]
  have m: "map (\<lambda>r. r\<lparr>src := path_basename ?fb, status := SkippedExists\<rparr>) ?rsa
     = [\<lparr>src = ''a.png'', out = ''a.webp'', res_fmt = ''webp'', status = SkippedExists\<rparr>,
        \<lparr>src = ''a.png'', out = ''a.jpg'', res_fmt = ''jpeg'', status = SkippedExists\<rparr>]"
    by code_simp
  have c1: "fst (processImage sample_codec ''/app'' ?fb default_opts ?wb)
     = Inr [\<lparr>src = ''a.png'', out = ''a.webp'', res_fmt = ''webp'', status = SkippedExists\<rparr>,
            \<lparr>src = ''a.png'', out = ''a.jpg'', res_fmt = ''jpeg'', status = SkippedExists\<rparr>]"
    by (simp only: e fst_conv m)
  have r0: "\<lparr>src = ''a.jpg'', out = ''a.webp'', res_fmt = ''webp'', status = Written\<rparr> \<in> set ?rsa"
    by simp
  have sel: "out \<lparr>src = ''a.jpg'', out = ''a.webp'', res_fmt = ''webp'', status = Written\<rparr>
               = ''a.webp''" by simp
  have pj: "path_join (OUTPUT_DIR ''/app'') ''a.webp'' = ?p" by code_simp
  note k = conjunct2[OF bspec[OF conjunct1[OF c] r0], unfolded sel pj]
  have da: "files ?wa ?p = Some (sharp ?fa, Webp (Fin 80) 4)" by code_simp
  have s2: "files (snd (processImage sample_codec ''/app'' ?fb default_opts ?wb)) = files ?wb"
    by (simp only: e snd_conv fanout_start_files)
  have c2: "files (snd (processImage sample_codec ''/app'' ?fb default_opts ?wb)) ?p
              = Some (sharp ?fa, Webp (Fin 80) 4)"
    by (rule trans[OF fun_cong[OF s2] trans[OF k da]])
  let ?O = "parseArgs [''node'', ''index.mjs'', ''--formats=jpeg,jpg'']"
  let ?rs = "[\<lparr>src = ''a.png'', out = ''a.jpg'', res_fmt = ''jpeg'', status = Written\<rparr>,
              \<lparr>src = ''a.png'', out = ''a.jpg'', res_fmt = ''jpeg'', status = SkippedExists\<rparr>]"
  let ?w = "snd (processImage sample_codec ''/app'' ?fb ?O empty_world)"
  have hb: "fst (processImage sample_codec ''/app'' ?fb ?O empty_world) = Inr ?rs" by code_simp
  have pb: "processImage sample_codec ''/app'' ?fb ?O empty_world = (Inr ?rs, ?w)"
    by (rule prod_eqI) (simp_all only: fst_conv snd_conv hb)
  note v = shared_output_path[where cd = sample_codec and opts = ?O and w = empty_world
      and dn = "''/app''" and fs = "[]" and acc = "[]"
      and f = ?fb and fa = ?fa and fb = ?fb and rsa = ?rsa and wa = ?wa and wb = ?wb]
  note d = mp[OF spec[OF spec[OF conjunct1[OF conjunct2[OF v]]]] pb]
  have c4: "calls ?w = [Metadata (sharp ?fb), Clone (sharp ?fb),
        Encode (Jpeg (Fin 80) True), ToFile ''/app/images/formatted/a.jpg'']"
    by (rule trans[OF conjunct1[OF conjunct2[OF d]]]) code_simp
  have c5: "allResults (main sample_codec
         (sample_env [file_entry ''a.jpg'', file_entry ''b.jpg'', file_entry ''a.png''])
         [''node'', ''index.mjs''] empty_world)
     = [\<lparr>src = ''a.jpg'', out = ''a.webp'', res_fmt = ''webp'', status = Written\<rparr>,
        \<lparr>src = ''a.jpg'', out = ''a.jpg'', res_fmt = ''jpeg'', status = Written\<rparr>,
        \<lparr>src = ''b.jpg'', out = ''b.webp'', res_fmt = ''webp'', status = Written\<rparr>,
        \<lparr>src = ''b.jpg'', out = ''b.jpg'', res_fmt = ''jpeg'', status = Written\<rparr>,
        \<lparr>src = ''a.png'', out = ''a.webp'', res_fmt = ''webp'', status = SkippedExists\<rparr>,
        \<lparr>src = ''a.png'', out = ''a.jpg'', res_fmt = ''jpeg'', status = SkippedExists\<rparr>]"
    by code_simp
  have c6: "files (after (main sample_codec
         (sample_env [file_entry ''a.jpg'', file_entry ''b.jpg'', file_entry ''a.png''])
         [''node'', ''index.mjs''] empty_world)) ''/app/images/formatted/a.webp''
     = Some (sharp ''/app/images/a.jpg'', Webp (Fin 80) 4)"
    by code_simp
  show ?thesis by (intro conjI) (rule c1 c2 hb c4 c5 c6)+
qed

end
